theory Spec2Isabelle
  imports Complex_Main "HOL-Library.Sublist"
begin

section \<open>Python strings\<close>

text \<open>
  A Python \<open>str\<close> is modelled by a \<open>string\<close>: the text in UTF-8, one \<open>char\<close> per byte.
  Substring search, \<open>split\<close> and concatenation on the bytes agree with Python's on the code
  points. Two operations of the source look at single characters: \<open>str.strip\<close> and
  case-insensitive matching. They are modelled on ASCII: the whitespace of Unicode outside
  ASCII and the three non-ASCII letters that Python's \<open>re.I\<close> equates with \<open>i\<close> and
  \<open>s\<close> are left out.
\<close>

abbreviation NL :: char where "NL \<equiv> CHR 0x0A"
abbreviation BS :: char where "BS \<equiv> CHR 0x5C"
abbreviation DQ :: char where "DQ \<equiv> CHR 0x22"
abbreviation SQ :: char where "SQ \<equiv> CHR 0x27"

text \<open>\<open>sub in s\<close> and \<open>s.find(sub)\<close>: the first occurrence, as the text before and after it.\<close>

fun find_sub :: "string \<Rightarrow> string \<Rightarrow> (string \<times> string) option" where
  "find_sub sub [] = (if sub = [] then Some ([], []) else None)"
| "find_sub sub (c # cs) =
     (if prefix sub (c # cs) then Some ([], drop (length sub) (c # cs))
      else map_option (\<lambda>(p, r). (c # p, r)) (find_sub sub cs))"

definition str_in :: "string \<Rightarrow> string \<Rightarrow> bool" where
  "str_in sub s = (find_sub sub s \<noteq> None)"

lemma find_sub_length: "find_sub sub s = Some (p, r) \<Longrightarrow> sub \<noteq> [] \<Longrightarrow> length r < length s"
proof (induction s arbitrary: p)
  case Nil
  then show ?case by simp
next
  case (Cons c cs)
  show ?case
  proof (cases "prefix sub (c # cs)")
    case True
    with Cons.prems show ?thesis by auto
  next
    case False
    with Cons.prems obtain p' where "find_sub sub cs = Some (p', r)"
      by (auto split: prod.splits)
    with Cons.IH Cons.prems(2) show ?thesis by fastforce
  qed
qed

text \<open>
  \<open>s.split(sep)\<close> for a non-empty separator: the pieces between the occurrences of
  \<open>sep\<close>, found from the left and not overlapping. Python raises ValueError for an empty
  separator; every separator of the source is a non-empty literal.
\<close>

function str_split :: "string \<Rightarrow> string \<Rightarrow> string list" where
  "str_split sep s =
     (if sep = [] then []
      else case find_sub sep s of
             None \<Rightarrow> [s]
           | Some (p, r) \<Rightarrow> p # str_split sep r)"
  by pat_completeness auto
termination
  by (relation "measure (\<lambda>(sep, s). length s)") (auto dest: find_sub_length)

declare str_split.simps [simp del]

text \<open>
  A raised exception is a value: \<open>Exception msg\<close> stands for any Python exception by its
  message \<open>str(e)\<close>, \<open>HTTPException\<close> is FastAPI's, with its status code and detail.
\<close>

datatype exn = Exception string | HTTPException nat string

abbreviation IndexError :: exn where
  "IndexError \<equiv> Exception ''list index out of range''"

definition and_then :: "exn + 'a \<Rightarrow> ('a \<Rightarrow> exn + 'b) \<Rightarrow> exn + 'b" where
  "and_then r f = (case r of Inl e \<Rightarrow> Inl e | Inr x \<Rightarrow> f x)"

text \<open>\<open>xs[i]\<close>: an index below zero counts from the end, one out of range raises.\<close>

definition getitem :: "'a list \<Rightarrow> int \<Rightarrow> exn + 'a" where
  "getitem xs i =
     (if 0 \<le> i \<and> i < int (length xs) then Inr (xs ! nat i)
      else if i < 0 \<and> - int (length xs) \<le> i then Inr (xs ! nat (int (length xs) + i))
      else Inl IndexError)"

text \<open>\<open>s.strip()\<close>: whitespace removed at both ends.\<close>

definition is_space :: "char \<Rightarrow> bool" where
  "is_space c = (c \<in> set [CHR 0x09, CHR 0x0A, CHR 0x0B, CHR 0x0C, CHR 0x0D,
                          CHR 0x1C, CHR 0x1D, CHR 0x1E, CHR 0x1F, CHR 0x20])"

definition str_strip :: "string \<Rightarrow> string" where
  "str_strip s = rev (dropWhile is_space (rev (dropWhile is_space s)))"

text \<open>\<open>s.lower()\<close> on ASCII letters.\<close>

definition lower_chr :: "char \<Rightarrow> char" where
  "lower_chr c =
     (case map_of (zip ''ABCDEFGHIJKLMNOPQRSTUVWXYZ'' ''abcdefghijklmnopqrstuvwxyz'') c of
        Some l \<Rightarrow> l
      | None \<Rightarrow> c)"

definition str_lower :: "string \<Rightarrow> string" where
  "str_lower s = map lower_chr s"

section \<open>The regular expressions of the normalizer\<close>

text \<open>
  The patterns of \<open>normalize_analysis_text\<close> use literal characters, \<open>.\<close>, a greedy or lazy
  star on one character, and a lookahead over literal alternatives. A pattern is the list of
  its items, matched from the left by backtracking in the order of Python's \<open>re\<close>: a greedy
  star tries the longer repetition first, a lazy one the shorter.
\<close>

datatype atom = Lit char | Dot

datatype item = One atom | Star atom | LazyStar atom | Lookahead "string list"

record re_flags =
  ignorecase :: bool
  dotall :: bool

abbreviation lits :: "string \<Rightarrow> item list" where
  "lits s \<equiv> map (\<lambda>c. One (Lit c)) s"

fun atom_matches :: "re_flags \<Rightarrow> atom \<Rightarrow> char \<Rightarrow> bool" where
  "atom_matches fl (Lit a) c = (if ignorecase fl then lower_chr c = lower_chr a else c = a)"
| "atom_matches fl Dot c = (dotall fl \<or> c \<noteq> NL)"

fun lit_at :: "re_flags \<Rightarrow> string \<Rightarrow> string \<Rightarrow> bool" where
  "lit_at fl [] s = True"
| "lit_at fl (a # as) [] = False"
| "lit_at fl (a # as) (c # cs) = (atom_matches fl (Lit a) c \<and> lit_at fl as cs)"

text \<open>The match of a pattern at the head of the text: the text left after it.\<close>

fun match_here :: "re_flags \<Rightarrow> item list \<Rightarrow> string \<Rightarrow> string option" where
  "match_here fl [] s = Some s"
| "match_here fl (One a # r) [] = None"
| "match_here fl (One a # r) (c # cs) =
     (if atom_matches fl a c then match_here fl r cs else None)"
| "match_here fl (Star a # r) [] = match_here fl r []"
| "match_here fl (Star a # r) (c # cs) =
     (if atom_matches fl a c
      then (case match_here fl (Star a # r) cs of
              Some t \<Rightarrow> Some t
            | None \<Rightarrow> match_here fl r (c # cs))
      else match_here fl r (c # cs))"
| "match_here fl (LazyStar a # r) [] = match_here fl r []"
| "match_here fl (LazyStar a # r) (c # cs) =
     (case match_here fl r (c # cs) of
        Some t \<Rightarrow> Some t
      | None \<Rightarrow> if atom_matches fl a c then match_here fl (LazyStar a # r) cs else None)"
| "match_here fl (Lookahead alts # r) s =
     (if list_ex (\<lambda>alt. lit_at fl alt s) alts then match_here fl r s else None)"

text \<open>
  \<open>re.search\<close>: the leftmost match, as the text before it, the matched text and the text
  after it.
\<close>

fun re_search :: "re_flags \<Rightarrow> item list \<Rightarrow> string \<Rightarrow> (string \<times> string \<times> string) option" where
  "re_search fl re [] =
     (case match_here fl re [] of Some t \<Rightarrow> Some ([], [], []) | None \<Rightarrow> None)"
| "re_search fl re (c # cs) =
     (case match_here fl re (c # cs) of
        Some t \<Rightarrow> Some ([], take (length (c # cs) - length t) (c # cs), t)
      | None \<Rightarrow> map_option (\<lambda>(p, m, t). (c # p, m, t)) (re_search fl re cs))"

lemma match_here_length: "match_here fl re s = Some t \<Longrightarrow> length t \<le> length s"
proof (induction fl re s arbitrary: t rule: match_here.induct)
  case (5 fl a r c cs)
  then show ?case
    by (fastforce split: if_splits option.splits)
next
  case (7 fl a r c cs)
  then show ?case
    by (fastforce split: if_splits option.splits)
qed (auto split: if_splits)

lemma re_search_length:
  "re_search fl re s = Some (p, m, t) \<Longrightarrow> m \<noteq> [] \<Longrightarrow> length t < length s"
proof (induction s arbitrary: p)
  case Nil
  then show ?case by (simp split: option.splits)
next
  case (Cons c cs)
  show ?case
  proof (cases "match_here fl re (c # cs)")
    case None
    with Cons.prems obtain p' where "re_search fl re cs = Some (p', m, t)"
      by (auto split: prod.splits)
    with Cons.IH Cons.prems(2) show ?thesis by fastforce
  next
    case (Some t')
    with Cons.prems have "t = t'" and "m = take (length (c # cs) - length t') (c # cs)"
      by auto
    with Cons.prems(2) show ?thesis by auto
  qed
qed

text \<open>
  \<open>re.sub(pattern, repl, s, count)\<close> with the replacement text already expanded: every
  match from the left is replaced, the first \<open>count\<close> of them when \<open>count\<close> is not 0. The
  patterns of the source begin with a literal and match no empty text; what Python does
  after an empty match is not modelled, the substitution stops there.
\<close>

function re_sub :: "re_flags \<Rightarrow> item list \<Rightarrow> string \<Rightarrow> nat \<Rightarrow> string \<Rightarrow> string" where
  "re_sub fl re repl count s =
     (case re_search fl re s of
        None \<Rightarrow> s
      | Some (p, m, t) \<Rightarrow>
          if m = [] then s
          else p @ repl @ (if count = 1 then t
                           else re_sub fl re repl (if count = 0 then 0 else count - 1) t))"
  by pat_completeness auto
termination
  by (relation "measure (\<lambda>(fl, re, repl, count, s). length s)")
     (auto dest: re_search_length)

declare re_sub.simps [simp del]

text \<open>
  The replacement template of \<open>re.sub\<close>: \<open>\n\<close>, \<open>\t\<close>, \<open>\r\<close> and \<open>\\\<close> are expanded. Group
  references and the escapes Python rejects do not occur in the source's templates and
  are left as they are.
\<close>

fun expand_template :: "string \<Rightarrow> string" where
  "expand_template (b # c # cs) =
     (if b = BS then
        (if c = CHR ''n'' then NL # expand_template cs
         else if c = CHR ''t'' then CHR 0x09 # expand_template cs
         else if c = CHR ''r'' then CHR 0x0D # expand_template cs
         else if c = BS then BS # expand_template cs
         else b # c # expand_template cs)
      else b # expand_template (c # cs))"
| "expand_template cs = cs"

section \<open>The normalizer\<close>

definition status_no_re :: "item list" where
  \<comment> \<open>\<open>r"Violation Status:\\s*No\\b"\<close>: in a raw string \<open>\\\<close> is the pattern of one backslash\<close>
  "status_no_re =
     lits ''Violation Status:'' @ [One (Lit BS), Star (Lit CHR ''s'')] @ lits ''No''
     @ [One (Lit BS), One (Lit CHR ''b'')]"

definition status_line_re :: "item list" where
  \<comment> \<open>\<open>r"(?i)Violation Status:.*"\<close>\<close>
  "status_line_re = lits ''Violation Status:'' @ [Star Dot]"

definition explanation_re :: "item list" where
  \<comment> \<open>\<open>r"(?s)Explanation:\\s*.*?(?=\\n\\nWhat the person can do next:|\\Z)"\<close>\<close>
  "explanation_re =
     lits ''Explanation:'' @ [One (Lit BS), Star (Lit CHR ''s''), LazyStar Dot,
       Lookahead [[BS, CHR ''n'', BS, CHR ''n''] @ ''What the person can do next:'',
                  [BS, CHR ''Z'']]]"

definition next_steps_re :: "item list" where
  \<comment> \<open>\<open>r"(?s)What the person can do next:\\s*.*"\<close>\<close>
  "next_steps_re =
     lits ''What the person can do next:'' @ [One (Lit BS), Star (Lit CHR ''s''), Star Dot]"

abbreviation flags_i :: re_flags where
  "flags_i \<equiv> \<lparr>ignorecase = True, dotall = False\<rparr>"

abbreviation flags_s :: re_flags where
  "flags_s \<equiv> \<lparr>ignorecase = False, dotall = True\<rparr>"

definition normalize_analysis_text :: "string option \<Rightarrow> string option" where
  "normalize_analysis_text text =
     (case text of
        None \<Rightarrow> None
      | Some t0 \<Rightarrow>
          if re_search flags_i status_no_re t0 \<noteq> None then
            let t1 = re_sub flags_i status_line_re
                       (expand_template ''Violation Status: No'') 1 t0;
                t2 = (if re_search flags_s explanation_re t1 \<noteq> None
                      then re_sub flags_s explanation_re
                             (expand_template
                                (''Explanation:'' @ [NL]
                                 @ ''No fundamental rights violation detected.'')) 0 t1
                      else str_strip t1 @ [BS, CHR ''n'', BS, CHR ''n''] @ ''Explanation:''
                           @ [NL] @ ''No fundamental rights violation detected.'');
                t3 = (if re_search flags_s next_steps_re t2 \<noteq> None
                      then re_sub flags_s next_steps_re
                             (expand_template
                                (''What the person can do next:'' @ [BS, CHR ''n'']
                                 @ ''No fundamental rights violation detected; no immediate action required.'')) 0 t2
                      else str_strip t2 @ [BS, CHR ''n'', BS, CHR ''n'']
                           @ ''What the person can do next:'' @ [BS, CHR ''n'']
                           @ ''No fundamental rights violation detected; no immediate action required.'')
            in Some t3
          else Some t0)"

section \<open>The response parser of \<open>screen_scenario\<close>\<close>

record structured_violation =
  status :: string
  article :: string
  explanation :: string
  guidance :: string
  confidence :: rat

record summary =
  total_violations :: nat
  risk_level :: string
  recommendations :: "string list"

record screen_response =
  violations :: "structured_violation list"
  summary :: summary
  raw_analysis :: string

definition has_violation :: "string \<Rightarrow> exn + bool" where
  "has_violation analysis_text =
     (if str_in ''Violation Status:'' analysis_text
      then and_then (getitem (str_split ''Violation Status:'' analysis_text) 1) (\<lambda>seg.
           and_then (getitem (str_split [NL] seg) 0) (\<lambda>line.
           Inr (str_in ''Yes'' line)))
      else Inr False)"

definition articles_section :: "string \<Rightarrow> exn + string" where
  "articles_section analysis_text =
     (if str_in ''Violated Article(s):'' analysis_text
      then and_then (getitem (str_split ''Violated Article(s):'' analysis_text) 1) (\<lambda>a.
           and_then (getitem (str_split ''Explanation:'' a) 0) (\<lambda>b.
           Inr (str_strip b)))
      else Inr [])"

definition explanation_section :: "string \<Rightarrow> exn + string" where
  "explanation_section analysis_text =
     (if str_in ''Explanation:'' analysis_text
      then and_then (getitem (str_split ''Explanation:'' analysis_text) 1) (\<lambda>a.
           and_then (getitem (str_split ''What the person can do next:'' a) 0) (\<lambda>b.
           Inr (str_strip b)))
      else Inr [])"

definition guidance_section :: "string \<Rightarrow> exn + string" where
  "guidance_section analysis_text =
     (if str_in ''What the person can do next:'' analysis_text
      then and_then (getitem (str_split ''What the person can do next:'' analysis_text) 1)
             (\<lambda>a. Inr (str_strip a))
      else Inr [])"

definition no_violation_record :: structured_violation where
  "no_violation_record =
     \<lparr>status = ''No Violation'', article = ''N/A'',
      explanation = ''No fundamental rights violation detected in this scenario.'',
      guidance = ''No immediate action required.'', confidence = 95 / 100\<rparr>"

text \<open>
  Lines 250 to 296 of the source: the structured response built from the analysis text.
  The confidence is the literal \<open>0.95\<close> of the source, kept as the fraction it denotes.
\<close>

definition parse_analysis :: "string \<Rightarrow> exn + screen_response" where
  "parse_analysis analysis_text =
     and_then (has_violation analysis_text) (\<lambda>hv.
     and_then
       (if hv then
          and_then (articles_section analysis_text) (\<lambda>arts.
          and_then (explanation_section analysis_text) (\<lambda>expl.
          and_then (guidance_section analysis_text) (\<lambda>guid.
          Inr [\<lparr>status = ''Violation Detected'', article = arts, explanation = expl,
                guidance = guid, confidence = 95 / 100\<rparr>])))
        else Inr [no_violation_record])
       (\<lambda>vs.
     Inr \<lparr>violations = vs,
          summary =
            \<lparr>total_violations = length (filter (\<lambda>v. status v = ''Violation Detected'') vs),
             risk_level = (if hv then ''High'' else ''Low''),
             recommendations =
               [if hv then ''Consult with a legal advisor for detailed guidance''
                else ''Continue monitoring the situation'']\<rparr>,
          raw_analysis = analysis_text\<rparr>))"

section \<open>The prompt builder\<close>

text \<open>
  An article is a JSON object of the corpus file: a dictionary from field names to texts.
\<close>

type_synonym article = "string \<rightharpoonup> string"

abbreviation KeyError :: "string \<Rightarrow> exn" where
  "KeyError k \<equiv> Exception ([SQ] @ k @ [SQ])"

definition dict_get :: "article \<Rightarrow> string \<Rightarrow> string \<Rightarrow> string" where
  \<comment> \<open>\<open>a.get(k, d)\<close>\<close>
  "dict_get a k d = (case a k of None \<Rightarrow> d | Some v \<Rightarrow> v)"

definition unlines :: "string list \<Rightarrow> string" where
  "unlines ls = concat (map (\<lambda>l. l @ [NL]) ls)"

definition article_block :: "article \<Rightarrow> exn + string" where
  "article_block art =
     (case art ''article_id'' of
        None \<Rightarrow> Inl (KeyError ''article_id'')
      | Some article_id \<Rightarrow>
          Inr ([NL] @ unlines
                [''Article: '' @ article_id,
                 ''Summary: '' @ dict_get art ''summary'' [],
                 ''Full Text: '' @ dict_get art ''text'' [],
                 ''---'']))"

fun article_text_loop :: "string \<Rightarrow> article list \<Rightarrow> exn + string" where
  "article_text_loop article_text [] = Inr article_text"
| "article_text_loop article_text (art # arts) =
     and_then (article_block art) (\<lambda>b. article_text_loop (article_text @ b) arts)"

definition prompt_head :: string where
  "prompt_head =
     [NL] @ unlines
       [''You are a legal assistant specialized in Sri Lankan Fundamental Rights.'',
        [],
        ''USER SCENARIO:'']
     @ [DQ]"

definition prompt_mid :: string where
  "prompt_mid =
     [DQ] @ [NL] @ unlines
       [[],
        ''RELEVANT CONSTITUTION ARTICLES:'']"

definition prompt_tail :: string where
  "prompt_tail =
     [NL] @ unlines
       [[],
        ''TASK:'',
        ''- Decide whether this is a Fundamental Rights violation or not.'',
        ''- If YES, state the violated Article(s) using the format: ARTICLE <number> '' @ [CHR 0xE2, CHR 0x80, CHR 0x93] @ '' <short summary title>.'',
        ''- Provide a short plain-language Explanation (1-3 short paragraphs).'',
        ''- Provide '' @ [DQ] @ ''What the person can do next:'' @ [DQ] @ '' with practical steps and mention Article 17 remedy if applicable.'',
        [],
        ''RESPONSE FORMAT (STRICT):'',
        ''Produce ONLY plain text (no markdown, no bold, no lists characters like '' @ [SQ] @ ''*'' @ [SQ] @ '', no HTML). Use the exact headings below followed by content.'',
        [],
        ''Violation Status: Yes or No'',
        [],
        ''Violated Article(s):'',
        ''ARTICLE <number> '' @ [CHR 0xE2, CHR 0x80, CHR 0x93] @ '' <short summary title>'',
        [],
        ''Explanation:'',
        ''<one or two short paragraphs explaining why this situation does or does not violate the Article>'',
        [],
        ''What the person can do next:'',
        ''<practical next steps; mention Article 17 remedy if applicable and simple evidence-collection suggestions>'',
        [],
        ''Keep language simple and concise, suitable for ordinary citizens. Do not include extra sections or commentary.'']"

definition build_prompt :: "string \<Rightarrow> article list \<Rightarrow> exn + string" where
  "build_prompt user_scenario matched_articles =
     and_then (article_text_loop [] matched_articles) (\<lambda>article_text.
     Inr (prompt_head @ user_scenario @ prompt_mid @ article_text @ prompt_tail))"

section \<open>The process state and the libraries it calls\<close>

text \<open>
  The module's globals and the world outside the process make up the state. The calls
  into libraries and services are parameters of the model: each takes the world, returns
  the message of the exception it raised or its value, and the world after the call.
  \<open>'m\<close> is the loaded encoder, \<open>'v\<close> an embedding, \<open>'i\<close> the similarity index.
\<close>

record ('m, 'i, 'w) state =
  embed_model :: "'m option"
  index :: "'i option"
  articles :: "article list option"
  gemini :: "string option"
  world :: 'w

datatype cap_value = CapList "string list" | CapItem string

record model_entry =
  name :: "string option"
  supported_generation_methods :: "cap_value option"
  supportedMethods :: "cap_value option"

datatype listing = AsList "model_entry list" | NotAList

datatype models_info = DictWithModels listing | Plain listing

record ('m, 'v, 'i, 'w) env =
  read_articles :: "'w \<Rightarrow> (string + article list) \<times> 'w"
    \<comment> \<open>lines 48 and 49: the corpus file, opened and parsed\<close>
  SentenceTransformer :: "string \<Rightarrow> 'w \<Rightarrow> (string + 'm) \<times> 'w"
    \<comment> \<open>line 52: the encoder loaded by name\<close>
  build_index :: "'m \<Rightarrow> string list \<Rightarrow> 'w \<Rightarrow> (string + 'i) \<times> 'w"
    \<comment> \<open>lines 57 to 60: the embeddings of the texts and a new index of their dimension\<close>
  index_add :: "'i \<Rightarrow> 'w \<Rightarrow> (string + unit) \<times> 'w"
    \<comment> \<open>line 61: the embeddings are added to the index\<close>
  encode :: "'m \<Rightarrow> string \<Rightarrow> 'w \<Rightarrow> (string + 'v) \<times> 'w"
    \<comment> \<open>line 132\<close>
  index_search :: "'i \<Rightarrow> 'v \<Rightarrow> nat \<Rightarrow> 'w \<Rightarrow> (string + int list) \<times> 'w"
    \<comment> \<open>line 133: the row indices \<open>indices[0]\<close> of the \<open>top_k\<close> nearest vectors\<close>
  GenerativeModel :: "string \<Rightarrow> 'w \<Rightarrow> (string + unit) \<times> 'w"
    \<comment> \<open>the constructor of a model handle; the handle is kept by its name\<close>
  list_models :: "'w \<Rightarrow> (string + models_info) \<times> 'w"
  generate_content :: "string \<Rightarrow> string \<Rightarrow> 'w \<Rightarrow> (string + string) \<times> 'w"
    \<comment> \<open>lines 222 and 223: the model's reply to a prompt, as the text read from it\<close>

type_synonym ('a, 'm, 'i, 'w) prog = "('m, 'i, 'w) state \<Rightarrow> (exn + 'a) \<times> ('m, 'i, 'w) state"

definition ok :: "'a \<Rightarrow> ('a, 'm, 'i, 'w) prog" where
  "ok x s = (Inr x, s)"

definition raise :: "exn \<Rightarrow> ('a, 'm, 'i, 'w) prog" where
  "raise e s = (Inl e, s)"

definition lift :: "exn + 'a \<Rightarrow> ('a, 'm, 'i, 'w) prog" where
  "lift r s = (r, s)"

definition next_do :: "('a, 'm, 'i, 'w) prog \<Rightarrow> ('a \<Rightarrow> ('b, 'm, 'i, 'w) prog) \<Rightarrow> ('b, 'm, 'i, 'w) prog" where
  "next_do m f s = (case m s of (Inl e, s') \<Rightarrow> (Inl e, s') | (Inr x, s') \<Rightarrow> f x s')"

definition assign :: "(('m, 'i, 'w) state \<Rightarrow> ('m, 'i, 'w) state) \<Rightarrow> (unit, 'm, 'i, 'w) prog" where
  "assign upd s = (Inr (), upd s)"

definition call :: "('w \<Rightarrow> (string + 'a) \<times> 'w) \<Rightarrow> ('a, 'm, 'i, 'w) prog" where
  "call f s =
     (case f (world s) of
        (Inl msg, w) \<Rightarrow> (Inl (Exception msg), s\<lparr>world := w\<rparr>)
      | (Inr x, w) \<Rightarrow> (Inr x, s\<lparr>world := w\<rparr>))"

abbreviation AttributeError :: "string \<Rightarrow> exn" where
  "AttributeError a \<equiv>
     Exception ([SQ] @ ''NoneType'' @ [SQ] @ '' object has no attribute '' @ [SQ] @ a @ [SQ])"

section \<open>Initialization\<close>

definition preferred :: "string list" where
  "preferred =
     [''models/gemini-2.5-flash'', ''models/gemini-1.5-flash'', ''models/gemini-1.5-pro'',
      ''models/gemini-pro'']"

text \<open>Lines 74 to 81: the first preferred model whose construction does not raise.\<close>

fun try_preferred :: "('m, 'v, 'i, 'w) env \<Rightarrow> string list \<Rightarrow> (string option, 'm, 'i, 'w) prog" where
  "try_preferred env [] s = (Inr None, s)"
| "try_preferred env (p # ps) s =
     (case call (GenerativeModel env p) s of
        (Inr _, s') \<Rightarrow> (Inr (Some p), s')
      | (Inl e, s') \<Rightarrow> try_preferred env ps s')"

definition models_list :: "models_info \<Rightarrow> listing" where
  \<comment> \<open>line 87\<close>
  "models_list info = (case info of DictWithModels l \<Rightarrow> l | Plain l \<Rightarrow> l)"

definition truthy :: "cap_value option \<Rightarrow> bool" where
  "truthy v = (case v of None \<Rightarrow> False | Some (CapList xs) \<Rightarrow> xs \<noteq> [] | Some (CapItem x) \<Rightarrow> x \<noteq> [])"

definition supported :: "model_entry \<Rightarrow> cap_value option" where
  \<comment> \<open>\<open>a or b\<close> is \<open>a\<close> when \<open>a\<close> is truthy, else \<open>b\<close>\<close>
  "supported m =
     (if truthy (supported_generation_methods m) then supported_generation_methods m
      else supportedMethods m)"

fun supports_generate_loop :: "string list \<Rightarrow> bool" where
  "supports_generate_loop [] = False"
| "supports_generate_loop (item # items) =
     (if str_in ''generate'' (str_lower item) \<or> str_in ''content'' (str_lower item)
         \<or> str_in ''text'' (str_lower item) \<or> str_in ''chat'' (str_lower item)
      then True else supports_generate_loop items)"

definition supports_generate :: "model_entry \<Rightarrow> bool" where
  "supports_generate m =
     (case supported m of
        None \<Rightarrow> False
      | Some (CapList xs) \<Rightarrow> supports_generate_loop xs
      | Some (CapItem x) \<Rightarrow> supports_generate_loop [x])"

fun available_loop :: "model_entry list \<Rightarrow> (string \<times> model_entry) list" where
  "available_loop [] = []"
| "available_loop (m # ms) =
     (case name m of
        Some n \<Rightarrow> (if n \<noteq> [] \<and> supports_generate m then (n, m) # available_loop ms
                   else available_loop ms)
      | None \<Rightarrow> available_loop ms)"

definition available :: "listing \<Rightarrow> (string \<times> model_entry) list" where
  "available l = (case l of AsList ms \<Rightarrow> available_loop ms | NotAList \<Rightarrow> [])"

fun first_preferred_in :: "string list \<Rightarrow> string list \<Rightarrow> string option" where
  "first_preferred_in [] names = None"
| "first_preferred_in (p # ps) names =
     (if p \<in> set names then Some p else first_preferred_in ps names)"

definition choose_available :: "(string \<times> model_entry) list \<Rightarrow> string option" where
  \<comment> \<open>lines 109 to 118\<close>
  "choose_available av =
     (case av of
        [] \<Rightarrow> None
      | (n, m) # rest \<Rightarrow>
          (case first_preferred_in preferred (map fst av) of
             Some p \<Rightarrow> Some p
           | None \<Rightarrow> Some n))"

definition list_models_fallback :: "('m, 'v, 'i, 'w) env \<Rightarrow> (string option, 'm, 'i, 'w) prog" where
  \<comment> \<open>lines 85 to 120: an exception of ListModels is printed and leaves no model\<close>
  "list_models_fallback env s =
     (case call (list_models env) s of
        (Inl e, s') \<Rightarrow> (Inr None, s')
      | (Inr models_info, s') \<Rightarrow> (Inr (choose_available (available (models_list models_info))), s'))"

abbreviation no_suitable_model :: exn where
  "no_suitable_model \<equiv>
     Exception ''No suitable generative model available. Run ListModels to see options.''"

definition init_gemini :: "('m, 'v, 'i, 'w) env \<Rightarrow> (unit, 'm, 'i, 'w) prog" where
  \<comment> \<open>lines 63 to 126\<close>
  "init_gemini env =
     next_do (try_preferred env preferred) (\<lambda>tried.
     next_do (case tried of Some p \<Rightarrow> ok (Some p) | None \<Rightarrow> list_models_fallback env)
       (\<lambda>model_name.
     case model_name of
       None \<Rightarrow> raise no_suitable_model
     | Some n \<Rightarrow>
         next_do (call (GenerativeModel env n)) (\<lambda>_.
         assign (\<lambda>s. s\<lparr>gemini := Some n\<rparr>))))"

fun index_texts :: "article list \<Rightarrow> exn + string list" where
  \<comment> \<open>lines 53 to 56\<close>
  "index_texts [] = Inr []"
| "index_texts (a # as) =
     (case a ''article_id'' of
        None \<Rightarrow> Inl (KeyError ''article_id'')
      | Some article_id \<Rightarrow>
          and_then (index_texts as) (\<lambda>ts.
          Inr ((article_id @ '' - '' @ dict_get a ''summary'' [] @ '' - ''
                @ dict_get a ''text'' []) # ts)))"

definition init_ai :: "('m, 'v, 'i, 'w) env \<Rightarrow> (unit, 'm, 'i, 'w) prog" where
  "init_ai env s =
     (if embed_model s \<noteq> None then (Inr (), s)
      else
        (next_do (call (read_articles env)) (\<lambda>arts.
         next_do (assign (\<lambda>s. s\<lparr>articles := Some arts\<rparr>)) (\<lambda>_.
         next_do (call (SentenceTransformer env ''all-MiniLM-L6-v2'')) (\<lambda>em.
         next_do (assign (\<lambda>s. s\<lparr>embed_model := Some em\<rparr>)) (\<lambda>_.
         next_do (lift (index_texts arts)) (\<lambda>texts.
         next_do (call (build_index env em texts)) (\<lambda>ix.
         next_do (assign (\<lambda>s. s\<lparr>index := Some ix\<rparr>)) (\<lambda>_.
         next_do (call (index_add env ix)) (\<lambda>_.
         init_gemini env))))))))) s)"

section \<open>Retrieval and the two endpoints\<close>

fun getitems :: "article list option \<Rightarrow> int list \<Rightarrow> exn + article list" where
  \<comment> \<open>\<open>[articles[i] for i in indices[0]]\<close>\<close>
  "getitems arts [] = Inr []"
| "getitems arts (i # is) =
     (case arts of
        None \<Rightarrow> Inl (Exception ([SQ] @ ''NoneType'' @ [SQ] @ '' object is not subscriptable''))
      | Some as \<Rightarrow>
          and_then (getitem as i) (\<lambda>a.
          and_then (getitems arts is) (\<lambda>rest. Inr (a # rest))))"

definition search_relevant_articles ::
  "('m, 'v, 'i, 'w) env \<Rightarrow> string \<Rightarrow> nat \<Rightarrow> (article list, 'm, 'i, 'w) prog" where
  "search_relevant_articles env user_input top_k s =
     (case embed_model s of
        None \<Rightarrow> (Inl (AttributeError ''encode''), s)
      | Some em \<Rightarrow>
          next_do (call (encode env em user_input)) (\<lambda>query_embedding s1.
            case index s1 of
              None \<Rightarrow> (Inl (AttributeError ''search''), s1)
            | Some ix \<Rightarrow>
                next_do (call (index_search env ix query_embedding top_k)) (\<lambda>indices s2.
                  (getitems (articles s2) indices, s2)) s1) s)"

text \<open>
  Lines 221 to 226 and 242 to 248: the calls inside \<open>try\<close>, with the message of what they
  raise, and the \<open>except\<close> clause that turns it into the error response.
\<close>

definition ask_gemini ::
  "('m, 'v, 'i, 'w) env \<Rightarrow> string \<Rightarrow> ('m, 'i, 'w) state \<Rightarrow> (string + string) \<times> ('m, 'i, 'w) state" where
  "ask_gemini env prompt s =
     (case gemini s of
        None \<Rightarrow> (Inl ([SQ] @ ''NoneType'' @ [SQ] @ '' object has no attribute ''
                      @ [SQ] @ ''generate_content'' @ [SQ]), s)
      | Some model \<Rightarrow>
          (case generate_content env model prompt (world s) of
             (r, w) \<Rightarrow> (r, s\<lparr>world := w\<rparr>)))"

definition except_500 ::
  "(('m, 'i, 'w) state \<Rightarrow> (string + 'a) \<times> ('m, 'i, 'w) state) \<Rightarrow> ('a, 'm, 'i, 'w) prog" where
  "except_500 body s =
     (case body s of
        (Inl msg, s') \<Rightarrow> (Inl (HTTPException 500 msg), s')
      | (Inr x, s') \<Rightarrow> (Inr x, s'))"

definition analyze :: "('m, 'v, 'i, 'w) env \<Rightarrow> string \<Rightarrow> (string, 'm, 'i, 'w) prog" where
  "analyze env scenario =
     next_do (init_ai env) (\<lambda>_.
     next_do (search_relevant_articles env scenario 3) (\<lambda>matched_articles.
     next_do (lift (build_prompt scenario matched_articles)) (\<lambda>prompt.
     next_do (except_500 (ask_gemini env prompt)) (\<lambda>analysis_text.
     ok analysis_text))))"

definition screen_scenario ::
  "('m, 'v, 'i, 'w) env \<Rightarrow> string \<Rightarrow> (screen_response, 'm, 'i, 'w) prog" where
  "screen_scenario env scenario =
     next_do (init_ai env) (\<lambda>_.
     next_do (search_relevant_articles env scenario 5) (\<lambda>matched_articles.
     next_do (lift (build_prompt scenario matched_articles)) (\<lambda>prompt.
     next_do (except_500 (\<lambda>s. case ask_gemini env prompt s of
                                  (Inl msg, s') \<Rightarrow> (Inl msg, s')
                                | (Inr t, s') \<Rightarrow> (Inr (normalize_analysis_text (Some t)), s')))
       (\<lambda>analysis_text.
     case analysis_text of
       None \<Rightarrow> raise (Exception (''argument of type '' @ [SQ] @ ''NoneType'' @ [SQ]
                                 @ '' is not iterable''))
     | Some t \<Rightarrow> lift (parse_analysis t)))))"

section \<open>The similarity index as its documentation describes it\<close>

text \<open>
  \<open>faiss.IndexFlatL2\<close> is a library, not code of the repository. Its documented
  behaviour: \<open>search\<close> returns the labels (row numbers) of the \<open>k\<close> stored vectors nearest
  to the query by squared Euclidean distance, nearest first, and fills the labels with
  \<open>-1\<close> when the index holds fewer than \<open>k\<close> vectors. The distances are taken exactly here;
  the library computes them in 32-bit floating point, and the order among vectors at the
  same distance, which the documentation leaves open, is by row number.
\<close>

definition sq_dist :: "rat list \<Rightarrow> rat list \<Rightarrow> rat" where
  "sq_dist x y = sum_list (map (\<lambda>(a, b). (a - b) * (a - b)) (zip x y))"

definition nearest_order :: "rat list list \<Rightarrow> rat list \<Rightarrow> nat list" where
  "nearest_order vectors q = sort_key (\<lambda>i. sq_dist (vectors ! i) q) [0..<length vectors]"

definition flat_l2_search :: "rat list list \<Rightarrow> rat list \<Rightarrow> nat \<Rightarrow> int list" where
  "flat_l2_search vectors q k =
     map int (take k (nearest_order vectors q)) @ replicate (k - length vectors) (- 1)"

section \<open>A small deployment to run the model on\<close>

definition empty_state :: "'w \<Rightarrow> ('m, 'i, 'w) state" where
  \<comment> \<open>lines 28 to 31: the globals before the first request\<close>
  "empty_state w =
     \<lparr>embed_model = None, index = None, articles = None, gemini = None, world = w\<rparr>"

definition demo_articles :: "article list" where
  "demo_articles =
     [[''article_id'' \<mapsto> ''11'', ''summary'' \<mapsto> ''Freedom from torture'',
       ''text'' \<mapsto> ''No person shall be subjected to torture.''],
      [''article_id'' \<mapsto> ''13'',
       ''text'' \<mapsto> ''No person shall be arrested except according to procedure established by law.'']]"

text \<open>
  A provider that constructs every model and answers each prompt with \<open>reply\<close>; the world
  counts the calls of \<open>generate_content\<close>.
\<close>

definition demo_env :: "string + string \<Rightarrow> (unit, unit, unit, nat) env" where
  "demo_env reply =
     \<lparr>read_articles = (\<lambda>w. (Inr demo_articles, w)),
      SentenceTransformer = (\<lambda>n w. (Inr (), w)),
      build_index = (\<lambda>m ts w. (Inr (), w)),
      index_add = (\<lambda>i w. (Inr (), w)),
      encode = (\<lambda>m t w. (Inr (), w)),
      index_search = (\<lambda>i v k w. (Inr (take k ([1, 0] @ replicate k (- 1))), w)),
      GenerativeModel = (\<lambda>n w. (Inr (), w)),
      list_models = (\<lambda>w. (Inl ''unavailable'', w)),
      generate_content = (\<lambda>m p w. (reply, Suc w))\<rparr>"

text \<open>
  A provider that constructs no preferred model and answers ListModels with \<open>listing\<close>;
  the world counts the constructions tried.
\<close>

definition fallback_env :: "string + models_info \<Rightarrow> (unit, unit, unit, nat) env" where
  "fallback_env listing =
     \<lparr>read_articles = (\<lambda>w. (Inr demo_articles, w)),
      SentenceTransformer = (\<lambda>n w. (Inr (), w)),
      build_index = (\<lambda>m ts w. (Inr (), w)),
      index_add = (\<lambda>i w. (Inr (), w)),
      encode = (\<lambda>m t w. (Inr (), w)),
      index_search = (\<lambda>i v k w. (Inr (take k ([1, 0] @ replicate k (- 1))), w)),
      GenerativeModel =
        (\<lambda>n w. (if n \<in> set preferred then Inl ''404 model not found'' else Inr (), Suc w)),
      list_models = (\<lambda>w. (listing, w)),
      generate_content = (\<lambda>m p w. (Inr ''Violation Status: No'', w))\<rparr>"

definition listed_pro :: model_entry where
  "listed_pro =
     \<lparr>name = Some ''models/gemini-pro'',
      supported_generation_methods = Some (CapList [''generateContent'', ''countTokens'']),
      supportedMethods = None\<rparr>"

definition listed_counter :: model_entry where
  "listed_counter =
     \<lparr>name = Some ''models/token-counter'',
      supported_generation_methods = Some (CapList [''countTokens'']),
      supportedMethods = None\<rparr>"

definition listed_flash :: model_entry where
  "listed_flash =
     \<lparr>name = Some ''models/gemini-2.0-flash'',
      supported_generation_methods = None,
      supportedMethods = Some (CapItem ''GenerateContent'')\<rparr>"

text \<open>
  A deployment with the index above: the corpus of two articles, and an encoder that maps
  a text to its length and its number of spaces.
\<close>

definition toy_embedding :: "string \<Rightarrow> rat list" where
  "toy_embedding t = [of_nat (length t), of_nat (length (filter (\<lambda>c. c = CHR '' '') t))]"

definition flat_env :: "(unit, rat list, rat list list, nat) env" where
  "flat_env =
     \<lparr>read_articles = (\<lambda>w. (Inr demo_articles, w)),
      SentenceTransformer = (\<lambda>n w. (Inr (), w)),
      build_index = (\<lambda>m ts w. (Inr (map toy_embedding ts), w)),
      index_add = (\<lambda>i w. (Inr (), w)),
      encode = (\<lambda>m t w. (Inr (toy_embedding t), w)),
      index_search = (\<lambda>i v k w. (Inr (flat_l2_search i v k), w)),
      GenerativeModel = (\<lambda>n w. (Inr (), w)),
      list_models = (\<lambda>w. (Inl ''unavailable'', w)),
      generate_content = (\<lambda>m p w. (Inr ''Violation Status: No'', Suc w))\<rparr>"

abbreviation (input) reply_yes :: string where
  "reply_yes \<equiv> ''Violation Status: Yes'' @ [NL, NL] @ ''Violated Article(s):'' @ [NL]
     @ ''ARTICLE 13 - Freedom from arbitrary arrest'' @ [NL, NL] @ ''Explanation:'' @ [NL]
     @ ''Detention without a warrant for 48 hours is arbitrary.'' @ [NL, NL]
     @ ''What the person can do next:'' @ [NL] @ ''File a petition under Article 17.''"

section \<open>Notions of the specification\<close>

text \<open>
  \<open>first_split sep t pre rest\<close>: the first occurrence of \<open>sep\<close> in \<open>t\<close> lies between \<open>pre\<close>
  and \<open>rest\<close>. \<open>segment_until sep rest seg\<close>: \<open>seg\<close> is \<open>rest\<close> up to the next occurrence of
  \<open>sep\<close>, all of \<open>rest\<close> when there is none.
\<close>

definition first_split :: "string \<Rightarrow> string \<Rightarrow> string \<Rightarrow> string \<Rightarrow> bool" where
  "first_split sep t pre rest \<longleftrightarrow>
     t = pre @ sep @ rest \<and> (\<forall>p r. t = p @ sep @ r \<longrightarrow> length pre \<le> length p)"

definition segment_until :: "string \<Rightarrow> string \<Rightarrow> string \<Rightarrow> bool" where
  "segment_until sep rest seg \<longleftrightarrow>
     (\<not> sublist sep rest \<and> seg = rest) \<or> (\<exists>post. first_split sep rest seg post)"

text \<open>
  The status pattern as the specification writes it, \<open>Violation Status:\s*No\<close> searched
  without regard to case: the header, any whitespace, then \<open>No\<close>.
\<close>

fun spec_status_no :: "string \<Rightarrow> bool" where
  "spec_status_no [] = False"
| "spec_status_no (c # cs) =
     ((prefix ''violation status:'' (str_lower (c # cs))
       \<and> prefix ''no''
           (dropWhile is_space (drop (length ''violation status:'') (str_lower (c # cs)))))
      \<or> spec_status_no cs)"

text \<open>
  An article as it is to appear in the prompt: its id, summary and text, each as it is, on
  the three labelled lines of the template.
\<close>

definition rendered :: "article \<Rightarrow> string" where
  "rendered a =
     [NL] @ ''Article: '' @ the (a ''article_id'') @ [NL]
     @ ''Summary: '' @ (case a ''summary'' of None \<Rightarrow> [] | Some x \<Rightarrow> x) @ [NL]
     @ ''Full Text: '' @ (case a ''text'' of None \<Rightarrow> [] | Some x \<Rightarrow> x) @ [NL]
     @ ''---'' @ [NL]"

text \<open>
  What both endpoints do before they call the model: initialization, retrieval of \<open>k\<close>
  articles, and the prompt. A request reaches the model call when this returns a prompt.
\<close>

definition prompt_for ::
  "('m, 'v, 'i, 'w) env \<Rightarrow> string \<Rightarrow> nat \<Rightarrow> (string, 'm, 'i, 'w) prog" where
  "prompt_for env scenario k =
     next_do (init_ai env) (\<lambda>_.
     next_do (search_relevant_articles env scenario k) (\<lambda>matched_articles.
     lift (build_prompt scenario matched_articles)))"

text \<open>Retrieval as an endpoint runs it: initialization, then the search for \<open>k\<close> articles.\<close>

definition retrieve ::
  "('m, 'v, 'i, 'w) env \<Rightarrow> string \<Rightarrow> nat \<Rightarrow> (article list, 'm, 'i, 'w) prog" where
  "retrieve env scenario k =
     next_do (init_ai env) (\<lambda>_. search_relevant_articles env scenario k)"

text \<open>
  Model selection in the words of the specification. \<open>all_fail env ps s\<close>: every model of
  \<open>ps\<close>, tried in order from the state \<open>s\<close>, fails to construct; the result is the state
  after the attempts. \<open>bind_selected\<close>: the selected name is constructed and bound to
  \<open>gemini\<close>. A model is kept when it has a name and one of its capability labels contains
  \<open>generate\<close>, \<open>content\<close>, \<open>text\<close> or \<open>chat\<close> without regard to case; the fallback's
  choice is the first preferred name among the kept models, else the first kept model.
\<close>

fun all_fail ::
  "('m, 'v, 'i, 'w) env \<Rightarrow> string list \<Rightarrow> ('m, 'i, 'w) state \<Rightarrow> ('m, 'i, 'w) state option" where
  "all_fail env [] s = Some s"
| "all_fail env (p # ps) s =
     (case call (GenerativeModel env p) s of
        (Inl e, s') \<Rightarrow> all_fail env ps s'
      | (Inr u, s') \<Rightarrow> None)"

definition bind_selected :: "('m, 'v, 'i, 'w) env \<Rightarrow> string \<Rightarrow> (unit, 'm, 'i, 'w) prog" where
  "bind_selected env n s =
     (case call (GenerativeModel env n) s of
        (Inl e, s') \<Rightarrow> (Inl e, s')
      | (Inr u, s') \<Rightarrow> (Inr (), s'\<lparr>gemini := Some n\<rparr>))"

definition labels :: "model_entry \<Rightarrow> string list" where
  "labels m = (case supported m of None \<Rightarrow> [] | Some (CapList xs) \<Rightarrow> xs | Some (CapItem x) \<Rightarrow> [x])"

definition kept_model :: "model_entry \<Rightarrow> bool" where
  "kept_model m \<longleftrightarrow>
     (\<exists>n. name m = Some n \<and> n \<noteq> [])
     \<and> (\<exists>l\<in>set (labels m). \<exists>w\<in>set [''generate'', ''content'', ''text'', ''chat''].
           sublist w (str_lower l))"

definition fallback_choice :: "model_entry list \<Rightarrow> string" where
  "fallback_choice ms =
     (case find (\<lambda>p. p \<in> set (map (\<lambda>m. the (name m)) (filter kept_model ms))) preferred of
        Some p \<Rightarrow> p
      | None \<Rightarrow> the (name (hd (filter kept_model ms))))"

section \<open>Substring search\<close>

lemma find_sub_append: "find_sub sub s = Some (p, r) \<Longrightarrow> s = p @ sub @ r"
proof (induction s arbitrary: p)
  case Nil
  then show ?case by (simp split: if_splits)
next
  case (Cons c cs)
  show ?case
  proof (cases "prefix sub (c # cs)")
    case True
    with Cons.prems show ?thesis by (auto simp: prefix_def)
  next
    case False
    with Cons.prems obtain p' where "find_sub sub cs = Some (p', r)" "p = c # p'"
      by (auto split: prod.splits)
    with Cons.IH show ?thesis by simp
  qed
qed

lemma find_sub_first:
  "find_sub sub s = Some (p, r) \<Longrightarrow> s = p' @ sub @ r' \<Longrightarrow> length p \<le> length p'"
proof (induction s arbitrary: p p')
  case Nil
  then show ?case by (simp split: if_splits)
next
  case (Cons c cs)
  show ?case
  proof (cases "prefix sub (c # cs)")
    case True
    with Cons.prems(1) have "p = []" by simp
    then show ?thesis by simp
  next
    case False
    with Cons.prems(1) obtain q where q: "find_sub sub cs = Some (q, r)" "p = c # q"
      by (auto split: prod.splits)
    from False Cons.prems(2) obtain p'' where p'': "p' = c # p''"
      by (cases p') (auto simp: prefix_def)
    with Cons.prems(2) have "cs = p'' @ sub @ r'" by simp
    from Cons.IH [OF q(1) this] q(2) p'' show ?thesis by simp
  qed
qed

lemma find_sub_None: "find_sub sub s = None \<longleftrightarrow> \<not> sublist sub s"
proof (induction s)
  case Nil
  then show ?case by simp
next
  case (Cons c cs)
  then show ?case by (auto simp: sublist_Cons_right)
qed

lemma str_in_sublist: "str_in sub s \<longleftrightarrow> sublist sub s"
  by (simp add: str_in_def find_sub_None)

lemma find_sub_char:
  "find_sub [c] s = (if c \<in> set s then Some (takeWhile (\<lambda>x. x \<noteq> c) s, tl (dropWhile (\<lambda>x. x \<noteq> c) s)) else None)"
  by (induction s) auto

lemma first_split_find_sub: "first_split sep t pre rest \<longleftrightarrow> find_sub sep t = Some (pre, rest)"
proof
  assume fs: "first_split sep t pre rest"
  then have t: "t = pre @ sep @ rest" by (simp add: first_split_def)
  then have "sublist sep t" by (auto simp: sublist_def)
  then obtain p r where f: "find_sub sep t = Some (p, r)"
    using find_sub_None [of sep t] by (cases "find_sub sep t") auto
  from find_sub_append [OF f] have t': "t = p @ sep @ r" .
  from fs have "\<forall>p r. t = p @ sep @ r \<longrightarrow> length pre \<le> length p"
    by (simp add: first_split_def)
  with t' have "length pre \<le> length p" by blast
  moreover from find_sub_first [OF f t] have "length p \<le> length pre" .
  ultimately have "length p = length pre" by simp
  with t t' have "p = pre \<and> r = rest" by auto
  with f show "find_sub sep t = Some (pre, rest)" by simp
next
  assume f: "find_sub sep t = Some (pre, rest)"
  show "first_split sep t pre rest"
    unfolding first_split_def
    using find_sub_append [OF f] find_sub_first [OF f] by blast
qed

lemma getitem_0: "getitem (x # xs) 0 = Inr x"
  by (simp add: getitem_def)

lemma getitem_1: "getitem (x # y # ys) 1 = Inr y"
  by (simp add: getitem_def)

lemma str_split_hd:
  "sep \<noteq> [] \<Longrightarrow> str_split sep s = (case find_sub sep s of None \<Rightarrow> s | Some (p, r) \<Rightarrow> p) # (case find_sub sep s of None \<Rightarrow> [] | Some (p, r) \<Rightarrow> str_split sep r)"
  by (subst str_split.simps) (simp split: option.splits)

lemma first_line: "getitem (str_split [NL] seg) 0 = Inr (takeWhile (\<lambda>c. c \<noteq> NL) seg)"
proof -
  have "str_split [NL] seg = takeWhile (\<lambda>c. c \<noteq> NL) seg # (case find_sub [NL] seg of None \<Rightarrow> [] | Some (p, r) \<Rightarrow> str_split [NL] r)"
  proof (cases "NL \<in> set seg")
    case True
    then show ?thesis by (subst str_split_hd) (simp_all add: find_sub_char)
  next
    case False
    then have tw: "takeWhile (\<lambda>c. c \<noteq> NL) seg = seg" by (auto simp: takeWhile_eq_all_conv)
    from False show ?thesis by (subst str_split_hd) (simp_all add: find_sub_char tw)
  qed
  then show ?thesis by (simp add: getitem_0)
qed

lemma segment_until_find_sub:
  "segment_until sep rest seg \<longleftrightarrow> seg = (case find_sub sep rest of None \<Rightarrow> rest | Some (p, r) \<Rightarrow> p)"
  by (cases "find_sub sep rest")
     (auto simp: segment_until_def first_split_find_sub find_sub_None [symmetric])

section \<open>The violation status read by the parser\<close>

lemma has_violation_eq:
  "has_violation t =
     Inr (\<exists>pre rest seg. first_split ''Violation Status:'' t pre rest
            \<and> segment_until ''Violation Status:'' rest seg
            \<and> sublist ''Yes'' (takeWhile (\<lambda>c. c \<noteq> NL) seg))"
proof (cases "find_sub ''Violation Status:'' t")
  case None
  then show ?thesis
    by (simp add: has_violation_def str_in_def first_split_find_sub)
next
  case (Some pr)
  obtain p r where pr: "pr = (p, r)" by (cases pr)
  let ?seg = "case find_sub ''Violation Status:'' r of None \<Rightarrow> r | Some (p, r) \<Rightarrow> p"
  have "str_split ''Violation Status:'' t = p # str_split ''Violation Status:'' r"
    using Some pr by (subst str_split.simps) simp
  also have "str_split ''Violation Status:'' r = ?seg # (case find_sub ''Violation Status:'' r of None \<Rightarrow> [] | Some (p, r) \<Rightarrow> str_split ''Violation Status:'' r)"
    by (rule str_split_hd) simp
  finally have "getitem (str_split ''Violation Status:'' t) 1 = Inr ?seg"
    by (simp only: getitem_1)
  moreover have "str_in ''Violation Status:'' t"
    using Some by (simp add: str_in_def)
  ultimately have "has_violation t = Inr (sublist ''Yes'' (takeWhile (\<lambda>c. c \<noteq> NL) ?seg))"
    by (simp add: has_violation_def and_then_def first_line str_in_sublist)
  then show ?thesis
    using Some pr by (simp add: first_split_find_sub segment_until_find_sub)
qed

text \<open>
  When the first line after the first header holds no second header, the segment's first
  line is the rest of that line.
\<close>

lemma has_violation_rest_of_line:
  assumes fs: "first_split ''Violation Status:'' t pre rest"
    and one: "\<not> sublist ''Violation Status:'' (takeWhile (\<lambda>c. c \<noteq> NL) rest)"
  shows "has_violation t = Inr (sublist ''Yes'' (takeWhile (\<lambda>c. c \<noteq> NL) rest))"
proof -
  let ?vs = "''Violation Status:''"
  let ?seg = "case find_sub ?vs rest of None \<Rightarrow> rest | Some (p, r) \<Rightarrow> p"
  have line: "takeWhile (\<lambda>c. c \<noteq> NL) ?seg = takeWhile (\<lambda>c. c \<noteq> NL) rest"
  proof (cases "find_sub ?vs rest")
    case None
    then show ?thesis by simp
  next
    case (Some qr)
    obtain q r where qr: "qr = (q, r)" by (cases qr)
    from find_sub_append [OF Some [unfolded qr]] have rest: "rest = q @ ?vs @ r" .
    have "NL \<in> set q"
    proof (rule ccontr)
      assume "NL \<notin> set q"
      then have "\<And>x. x \<in> set q \<Longrightarrow> x \<noteq> NL" by auto
      then have "takeWhile (\<lambda>c. c \<noteq> NL) (q @ (?vs @ r))
          = q @ takeWhile (\<lambda>c. c \<noteq> NL) (?vs @ r)"
        by (rule takeWhile_append2)
      then have "takeWhile (\<lambda>c. c \<noteq> NL) rest = q @ takeWhile (\<lambda>c. c \<noteq> NL) (?vs @ r)"
        by (simp only: rest)
      also have "takeWhile (\<lambda>c. c \<noteq> NL) (?vs @ r) = ?vs @ takeWhile (\<lambda>c. c \<noteq> NL) r"
        by simp
      finally have "sublist ?vs (takeWhile (\<lambda>c. c \<noteq> NL) rest)"
        by (metis sublist_appendI)
      with one show False by contradiction
    qed
    then have "takeWhile (\<lambda>c. c \<noteq> NL) (q @ (?vs @ r)) = takeWhile (\<lambda>c. c \<noteq> NL) q"
      by (intro takeWhile_append1 [of NL]) simp_all
    then have "takeWhile (\<lambda>c. c \<noteq> NL) rest = takeWhile (\<lambda>c. c \<noteq> NL) q"
      by (simp only: rest)
    with Some qr show ?thesis by simp
  qed
  from fs have f: "find_sub ?vs t = Some (pre, rest)"
    by (simp only: first_split_find_sub)
  have "(\<exists>pre' rest' seg. first_split ?vs t pre' rest' \<and> segment_until ?vs rest' seg
          \<and> sublist ''Yes'' (takeWhile (\<lambda>c. c \<noteq> NL) seg))
        \<longleftrightarrow> sublist ''Yes'' (takeWhile (\<lambda>c. c \<noteq> NL) ?seg)"
    by (simp add: first_split_find_sub segment_until_find_sub f)
  then show ?thesis
    by (simp only: has_violation_eq [of t] line)
qed

text \<open>
  Claim C3. The parser never raises on the status test, and \<open>has_violation\<close> holds exactly
  when the text has a first occurrence of \<open>Violation Status:\<close> and \<open>Yes\<close> occurs in the first
  line of the segment that follows it, the segment ending at the next occurrence of the
  header or at the end of the text. A text without the header gives \<open>False\<close>.
\<close>

theorem has_violation_first_line:
  "has_violation t =
     Inr (\<exists>pre rest seg. first_split ''Violation Status:'' t pre rest
            \<and> segment_until ''Violation Status:'' rest seg
            \<and> sublist ''Yes'' (takeWhile (\<lambda>c. c \<noteq> NL) seg))
   \<and> (\<not> sublist ''Violation Status:'' t \<longrightarrow> has_violation t = Inr False)"
proof
  show "has_violation t =
     Inr (\<exists>pre rest seg. first_split ''Violation Status:'' t pre rest
            \<and> segment_until ''Violation Status:'' rest seg
            \<and> sublist ''Yes'' (takeWhile (\<lambda>c. c \<noteq> NL) seg))"
    by (rule has_violation_eq)
  show "\<not> sublist ''Violation Status:'' t \<longrightarrow> has_violation t = Inr False"
    by (simp add: has_violation_def str_in_sublist)
qed

theorem has_violation_first_line_witness:
  "(\<exists>pre rest seg.
      first_split ''Violation Status:''
        (''Analysis. Violation Status: Yes'' @ [NL] @ ''Explanation: detained without a warrant.'')
        pre rest
      \<and> segment_until ''Violation Status:'' rest seg
      \<and> sublist ''Yes'' (takeWhile (\<lambda>c. c \<noteq> NL) seg))
   \<and> \<not> sublist ''Violation Status:'' ''The bill was paid on time.''
   \<and> has_violation ''The bill was paid on time.'' = Inr False"
proof -
  have yes: "has_violation
      (''Analysis. Violation Status: Yes'' @ [NL] @ ''Explanation: detained without a warrant.'')
      = Inr True"
    by code_simp
  have absent: "\<not> str_in ''Violation Status:'' ''The bill was paid on time.''"
    by code_simp
  from has_violation_first_line
         [of "''Analysis. Violation Status: Yes'' @ [NL] @ ''Explanation: detained without a warrant.''"]
  have "Inr (\<exists>pre rest seg.
      first_split ''Violation Status:''
        (''Analysis. Violation Status: Yes'' @ [NL] @ ''Explanation: detained without a warrant.'')
        pre rest
      \<and> segment_until ''Violation Status:'' rest seg
      \<and> sublist ''Yes'' (takeWhile (\<lambda>c. c \<noteq> NL) seg)) = (Inr True :: exn + bool)"
    by (simp only: yes)
  then have first: "\<exists>pre rest seg.
      first_split ''Violation Status:''
        (''Analysis. Violation Status: Yes'' @ [NL] @ ''Explanation: detained without a warrant.'')
        pre rest
      \<and> segment_until ''Violation Status:'' rest seg
      \<and> sublist ''Yes'' (takeWhile (\<lambda>c. c \<noteq> NL) seg)"
    by (simp only: sum.inject simp_thms)
  from absent have no: "\<not> sublist ''Violation Status:'' ''The bill was paid on time.''"
    unfolding str_in_sublist .
  with has_violation_first_line [of "''The bill was paid on time.''"]
  have "has_violation ''The bill was paid on time.'' = Inr False"
    by blast
  with first no show ?thesis by blast
qed

section \<open>The normalizer's status pattern\<close>

text \<open>
  The pattern of line 189 asks for a backslash after the header, so a reply without one is
  returned as it came.
\<close>

lemma lower_chr_BS: "lower_chr c = BS \<Longrightarrow> c = BS"
  unfolding lower_chr_def
  by (auto split: option.splits if_splits)

lemma match_here_lits:
  "match_here fl (lits l @ r) s = Some t \<Longrightarrow>
     \<exists>a b. s = a @ b \<and> length a = length l \<and> match_here fl r b = Some t"
proof (induction l arbitrary: s)
  case Nil
  then show ?case by simp
next
  case (Cons x l)
  then obtain c cs where s: "s = c # cs" and m: "match_here fl (lits l @ r) cs = Some t"
    by (cases s) (auto split: if_splits)
  from Cons.IH [OF m] obtain a b where "cs = a @ b" "length a = length l" "match_here fl r b = Some t"
    by blast
  with s have "s = (c # a) @ b \<and> length (c # a) = length (x # l) \<and> match_here fl r b = Some t"
    by simp
  then show ?case by blast
qed

lemma status_no_match_backslash:
  "match_here flags_i status_no_re s = Some t \<Longrightarrow> BS \<in> set s"
proof -
  assume "match_here flags_i status_no_re s = Some t"
  then have "match_here flags_i (lits ''Violation Status:'' @ (One (Lit BS) # Star (Lit CHR ''s'') # lits ''No''
     @ [One (Lit BS), One (Lit CHR ''b'')])) s = Some t"
    by (simp add: status_no_re_def)
  from match_here_lits [OF this] obtain a b where
    s: "s = a @ b" and b: "match_here flags_i (One (Lit BS) # Star (Lit CHR ''s'') # lits ''No''
     @ [One (Lit BS), One (Lit CHR ''b'')]) b = Some t"
    by blast
  from b obtain c cs where "b = c # cs" "lower_chr c = lower_chr BS"
    by (cases b) (auto split: if_splits)
  moreover have "lower_chr BS = BS" by (simp add: lower_chr_def)
  ultimately have "b = BS # cs" using lower_chr_BS by simp
  with s show ?thesis by simp
qed

lemma status_no_search_backslash:
  "re_search flags_i status_no_re s \<noteq> None \<Longrightarrow> BS \<in> set s"
proof (induction s)
  case Nil
  then show ?case by (simp add: status_no_re_def)
next
  case (Cons c cs)
  show ?case
  proof (cases "match_here flags_i status_no_re (c # cs)")
    case None
    with Cons show ?thesis by auto
  next
    case (Some t)
    then show ?thesis by (rule status_no_match_backslash)
  qed
qed

lemma normalize_without_backslash:
  "BS \<notin> set t \<Longrightarrow> normalize_analysis_text (Some t) = Some t"
  using status_no_search_backslash [of t] by (auto simp: normalize_analysis_text_def)

text \<open>
  A pattern that begins with a character matches no empty text, so \<open>re_sub\<close> never meets an
  empty match on the patterns of the normalizer.
\<close>

lemma match_here_One_shorter:
  "match_here fl (One a # r) s = Some t \<Longrightarrow> length t < length s"
  by (cases s) (auto split: if_splits dest: match_here_length)

lemma re_search_nonempty:
  "re_search fl (One a # r) s = Some (p, m, t) \<Longrightarrow> m \<noteq> []"
proof (induction s arbitrary: p)
  case Nil
  then show ?case by simp
next
  case (Cons c cs)
  show ?case
  proof (cases "match_here fl (One a # r) (c # cs)")
    case None
    with Cons.prems obtain p' where "re_search fl (One a # r) cs = Some (p', m, t)"
      by (auto split: prod.splits)
    with Cons.IH show ?thesis by blast
  next
    case (Some t')
    from match_here_One_shorter [OF Some] have "length t' < length (c # cs)" .
    moreover from Some Cons.prems have "m = take (length (c # cs) - length t') (c # cs)"
      by auto
    ultimately show ?thesis by auto
  qed
qed

text \<open>
  Claim C1. A reply whose status line reads \<open>Violation Status: No\<close> is to come back with
  the canonical status line and the two fixed messages. On the reply below, which matches
  the status pattern of the specification, the normalizer changes nothing: the Explanation
  and the next-steps sections keep the model's words.
\<close>

theorem normalize_no_reply_unchanged:
  "spec_status_no
     (''Violation Status: No'' @ [NL, NL] @ ''Explanation:'' @ [NL]
      @ ''The citizen paid the bill on time; no right is affected.'' @ [NL, NL]
      @ ''What the person can do next:'' @ [NL] @ ''Keep the receipt.'')
   \<and> normalize_analysis_text
       (Some (''Violation Status: No'' @ [NL, NL] @ ''Explanation:'' @ [NL]
              @ ''The citizen paid the bill on time; no right is affected.'' @ [NL, NL]
              @ ''What the person can do next:'' @ [NL] @ ''Keep the receipt.''))
     = Some (''Violation Status: No'' @ [NL, NL] @ ''Explanation:'' @ [NL]
             @ ''The citizen paid the bill on time; no right is affected.'' @ [NL, NL]
             @ ''What the person can do next:'' @ [NL] @ ''Keep the receipt.'')"
  by code_simp

text \<open>
  Claim C6. A text that does not match \<open>Violation Status:\s*No\<close> is to pass through
  unchanged. The text \<open>Violation Status:\No\b\<close>, with its two backslashes, does not match
  that pattern, and the normalizer rewrites it: it matches the pattern of line 189.
\<close>

theorem normalize_rewrites_unmatched_text:
  "\<not> spec_status_no (''Violation Status:'' @ [BS] @ ''No'' @ [BS] @ ''b'')
   \<and> normalize_analysis_text (Some (''Violation Status:'' @ [BS] @ ''No'' @ [BS] @ ''b''))
     = Some (''Violation Status: No'' @ [BS, CHR ''n'', BS, CHR ''n''] @ ''Explanation:'' @ [NL]
             @ ''No fundamental rights violation detected.'' @ [BS, CHR ''n'', BS, CHR ''n'']
             @ ''What the person can do next:'' @ [BS, CHR ''n'']
             @ ''No fundamental rights violation detected; no immediate action required.'')"
  by code_simp

section \<open>The structured response\<close>

text \<open>The summary of lines 288 to 294, as a function of the violation status.\<close>

definition summary_of :: "bool \<Rightarrow> summary" where
  "summary_of hv =
     \<lparr>total_violations = (if hv then 1 else 0),
      risk_level = (if hv then ''High'' else ''Low''),
      recommendations =
        [if hv then ''Consult with a legal advisor for detailed guidance''
         else ''Continue monitoring the situation'']\<rparr>"

lemma getitem_split_0: "sep \<noteq> [] \<Longrightarrow> \<exists>x. getitem (str_split sep s) 0 = Inr x"
  by (subst str_split_hd) (simp_all add: getitem_0)

lemma getitem_split_1:
  assumes "sep \<noteq> []" and "str_in sep s"
  shows "\<exists>x. getitem (str_split sep s) 1 = Inr x"
proof -
  from assms(2) obtain p r where f: "find_sub sep s = Some (p, r)"
    by (auto simp: str_in_def)
  with assms(1) have "str_split sep s = p # str_split sep r"
    by (subst str_split.simps) simp
  also from assms(1) have "str_split sep r =
      (case find_sub sep r of None \<Rightarrow> r | Some (p, r) \<Rightarrow> p)
      # (case find_sub sep r of None \<Rightarrow> [] | Some (p, r) \<Rightarrow> str_split sep r)"
    by (rule str_split_hd)
  finally show ?thesis by (simp only: getitem_1) blast
qed

lemma articles_section_total: "\<exists>x. articles_section t = Inr x"
proof (cases "str_in ''Violated Article(s):'' t")
  case True
  from getitem_split_1 [OF _ True] obtain a
    where a: "getitem (str_split ''Violated Article(s):'' t) 1 = Inr a" by auto
  from getitem_split_0 [of "''Explanation:''" a] obtain b
    where "getitem (str_split ''Explanation:'' a) 0 = Inr b" by auto
  with a True show ?thesis by (simp add: articles_section_def and_then_def)
next
  case False
  then show ?thesis by (simp add: articles_section_def)
qed

lemma explanation_section_total: "\<exists>x. explanation_section t = Inr x"
proof (cases "str_in ''Explanation:'' t")
  case True
  from getitem_split_1 [OF _ True] obtain a
    where a: "getitem (str_split ''Explanation:'' t) 1 = Inr a" by auto
  from getitem_split_0 [of "''What the person can do next:''" a] obtain b
    where "getitem (str_split ''What the person can do next:'' a) 0 = Inr b" by auto
  with a True show ?thesis by (simp add: explanation_section_def and_then_def)
next
  case False
  then show ?thesis by (simp add: explanation_section_def)
qed

lemma guidance_section_total: "\<exists>x. guidance_section t = Inr x"
proof (cases "str_in ''What the person can do next:'' t")
  case True
  from getitem_split_1 [OF _ True] obtain a
    where a: "getitem (str_split ''What the person can do next:'' t) 1 = Inr a" by auto
  with True show ?thesis by (simp add: guidance_section_def and_then_def)
next
  case False
  then show ?thesis by (simp add: guidance_section_def)
qed

lemma has_violation_total: "\<exists>hv. has_violation t = Inr hv"
  using has_violation_eq [of t] by blast

lemma parse_analysis_no:
  "has_violation t = Inr False \<Longrightarrow>
     parse_analysis t =
       Inr \<lparr>violations = [no_violation_record], summary = summary_of False, raw_analysis = t\<rparr>"
  by (simp add: parse_analysis_def and_then_def summary_of_def no_violation_record_def)

lemma parse_analysis_yes:
  "has_violation t = Inr True \<Longrightarrow>
     \<exists>a e g. articles_section t = Inr a \<and> explanation_section t = Inr e
        \<and> guidance_section t = Inr g
        \<and> parse_analysis t =
           Inr \<lparr>violations =
                  [\<lparr>status = ''Violation Detected'', article = a, explanation = e,
                    guidance = g, confidence = 95 / 100\<rparr>],
                summary = summary_of True, raw_analysis = t\<rparr>"
  using articles_section_total [of t] explanation_section_total [of t]
    guidance_section_total [of t]
  by (auto simp: parse_analysis_def and_then_def summary_of_def)

lemma screen_scenario_Inr:
  "screen_scenario env scenario s = (Inr resp, s') \<Longrightarrow> \<exists>t. parse_analysis t = Inr resp"
  by (auto simp: screen_scenario_def next_do_def lift_def raise_def except_500_def
           split: prod.splits sum.splits option.splits)


lemma parse_analysis_facts:
  assumes "parse_analysis t = Inr resp"
  shows "raw_analysis resp = t"
    and "\<exists>hv v. has_violation t = Inr hv \<and> violations resp = [v]
           \<and> summary resp = summary_of hv \<and> confidence v = 95 / 100
           \<and> (hv \<longrightarrow> status v = ''Violation Detected'')
           \<and> (\<not> hv \<longrightarrow> v = no_violation_record)"
proof -
  obtain hv where hv: "has_violation t = Inr hv"
    using has_violation_total by blast
  show "raw_analysis resp = t"
  proof (cases hv)
    case True
    with hv parse_analysis_yes [of t] assms show ?thesis by auto
  next
    case False
    with hv parse_analysis_no [of t] assms show ?thesis by auto
  qed
  show "\<exists>hv v. has_violation t = Inr hv \<and> violations resp = [v]
           \<and> summary resp = summary_of hv \<and> confidence v = 95 / 100
           \<and> (hv \<longrightarrow> status v = ''Violation Detected'')
           \<and> (\<not> hv \<longrightarrow> v = no_violation_record)"
  proof (cases hv)
    case True
    with hv parse_analysis_yes [of t] assms show ?thesis by auto
  next
    case False
    with hv parse_analysis_no [of t] assms show ?thesis
      by (auto simp: no_violation_record_def)
  qed
qed



text \<open>
  Claim C10. Every record of a \<open>screen_scenario\<close> response has the confidence 0.95, in the
  branch that found a violation and in the one that found none.
\<close>

theorem screen_scenario_confidence:
  assumes "screen_scenario env scenario s = (Inr resp, s')"
    and "v \<in> set (violations resp)"
  shows "confidence v = 95 / 100"
proof -
  from screen_scenario_Inr [OF assms(1)] obtain t where t: "parse_analysis t = Inr resp" ..
  from parse_analysis_facts(2) [OF t] assms(2) show ?thesis by auto
qed

theorem screen_scenario_confidence_witness:
  "\<exists>resp s' v.
     screen_scenario (demo_env (Inr reply_yes))
       ''Police detained a journalist without a warrant for 48 hours'' (empty_state 0)
       = (Inr resp, s')
     \<and> status v = ''Violation Detected'' \<and> v \<in> set (violations resp)
     \<and> confidence v = 95 / 100"
proof -
  let ?run = "screen_scenario (demo_env (Inr reply_yes))
       ''Police detained a journalist without a warrant for 48 hours'' (empty_state 0)"
  have "map_sum id (map status \<circ> violations) (fst ?run) = Inr [''Violation Detected'']"
    by code_simp
  then obtain resp where r: "fst ?run = Inr resp"
    and st: "map status (violations resp) = [''Violation Detected'']"
    by (cases "fst ?run") auto
  from st obtain v where v: "violations resp = [v]" "status v = ''Violation Detected''"
    by auto
  from r have run: "?run = (Inr resp, snd ?run)" by (metis prod.collapse)
  from v have "v \<in> set (violations resp)" by simp
  from screen_scenario_confidence [OF run this] run v this show ?thesis by blast
qed

section \<open>The prompt builder is a function of its two arguments\<close>

lemma article_block_rendered:
  "a ''article_id'' \<noteq> None \<Longrightarrow> article_block a = Inr (rendered a)"
  by (auto simp: article_block_def rendered_def unlines_def dict_get_def split: option.splits)

lemma article_text_loop_rendered:
  "\<forall>a\<in>set arts. a ''article_id'' \<noteq> None \<Longrightarrow>
     article_text_loop acc arts = Inr (acc @ concat (map rendered arts))"
  by (induction arts arbitrary: acc) (simp_all add: article_block_rendered and_then_def)

text \<open>
  Claim C7. \<open>build_prompt\<close> reads its two arguments only, so equal arguments give the same
  prompt; and when every matched article has an id, the prompt is the fixed template with
  the scenario and, in their order, the articles' ids, summaries and texts put in as
  they are.
\<close>

theorem build_prompt_pure_verbatim:
  "(\<forall>scenario' arts'. scenario' = scenario \<and> arts' = arts
       \<longrightarrow> build_prompt scenario' arts' = build_prompt scenario arts)
   \<and> ((\<forall>a\<in>set arts. a ''article_id'' \<noteq> None) \<longrightarrow>
        build_prompt scenario arts =
          Inr (prompt_head @ scenario @ prompt_mid @ concat (map rendered arts) @ prompt_tail))"
  by (simp add: build_prompt_def article_text_loop_rendered and_then_def)

theorem build_prompt_pure_verbatim_witness:
  "map (\<lambda>a. a ''article_id'') demo_articles = [Some ''11'', Some ''13'']
   \<and> build_prompt ''Police detained a journalist'' demo_articles =
       Inr (prompt_head @ ''Police detained a journalist'' @ prompt_mid
            @ ([NL] @ ''Article: 11'' @ [NL] @ ''Summary: Freedom from torture'' @ [NL]
               @ ''Full Text: No person shall be subjected to torture.'' @ [NL] @ ''---'' @ [NL])
            @ ([NL] @ ''Article: 13'' @ [NL] @ ''Summary: '' @ [NL]
               @ ''Full Text: No person shall be arrested except according to procedure established by law.''
               @ [NL] @ ''---'' @ [NL])
            @ prompt_tail)"
proof -
  have ids: "\<forall>a\<in>set demo_articles. a ''article_id'' \<noteq> None"
    by (simp add: demo_articles_def)
  have r: "concat (map rendered demo_articles) =
            ([NL] @ ''Article: 11'' @ [NL] @ ''Summary: Freedom from torture'' @ [NL]
               @ ''Full Text: No person shall be subjected to torture.'' @ [NL] @ ''---'' @ [NL])
            @ ([NL] @ ''Article: 13'' @ [NL] @ ''Summary: '' @ [NL]
               @ ''Full Text: No person shall be arrested except according to procedure established by law.''
               @ [NL] @ ''---'' @ [NL])"
    by (simp add: demo_articles_def rendered_def)
  from build_prompt_pure_verbatim [of "''Police detained a journalist''" demo_articles] ids
  have "build_prompt ''Police detained a journalist'' demo_articles =
          Inr (prompt_head @ ''Police detained a journalist'' @ prompt_mid
               @ concat (map rendered demo_articles) @ prompt_tail)"
    by blast
  moreover have "map (\<lambda>a. a ''article_id'') demo_articles = [Some ''11'', Some ''13'']"
    by (simp add: demo_articles_def)
  ultimately show ?thesis using r by (simp only: append_assoc simp_thms)
qed

section \<open>Failures of the model call and replies without the headers\<close>

lemma analyze_via_prompt:
  "analyze env scenario s =
     (case prompt_for env scenario 3 s of
        (Inl e, s1) \<Rightarrow> (Inl e, s1)
      | (Inr prompt, s1) \<Rightarrow>
          (case ask_gemini env prompt s1 of
             (Inl msg, s2) \<Rightarrow> (Inl (HTTPException 500 msg), s2)
           | (Inr reply, s2) \<Rightarrow> (Inr reply, s2)))"
  by (simp add: analyze_def prompt_for_def next_do_def lift_def except_500_def ok_def
           split: prod.splits sum.splits)

lemma normalize_Some: "\<exists>t. normalize_analysis_text (Some reply) = Some t"
  by (simp add: normalize_analysis_text_def Let_def)

lemma normalize_not_None: "normalize_analysis_text (Some reply) \<noteq> None"
  using normalize_Some [of reply] by auto

lemma screen_scenario_via_prompt:
  "screen_scenario env scenario s =
     (case prompt_for env scenario 5 s of
        (Inl e, s1) \<Rightarrow> (Inl e, s1)
      | (Inr prompt, s1) \<Rightarrow>
          (case ask_gemini env prompt s1 of
             (Inl msg, s2) \<Rightarrow> (Inl (HTTPException 500 msg), s2)
           | (Inr reply, s2) \<Rightarrow>
               (parse_analysis (the (normalize_analysis_text (Some reply))), s2)))"
  by (auto simp: screen_scenario_def prompt_for_def next_do_def lift_def except_500_def
        normalize_not_None split: prod.splits sum.splits option.splits)


lemma section_absent:
  "\<not> sublist ''Violated Article(s):'' t \<Longrightarrow> articles_section t = Inr []"
  "\<not> sublist ''Explanation:'' t \<Longrightarrow> explanation_section t = Inr []"
  "\<not> sublist ''What the person can do next:'' t \<Longrightarrow> guidance_section t = Inr []"
  by (simp_all add: articles_section_def explanation_section_def guidance_section_def
        str_in_sublist)

lemma parse_analysis_shape:
  "\<exists>hv v. has_violation t = Inr hv
     \<and> parse_analysis t = Inr \<lparr>violations = [v], summary = summary_of hv, raw_analysis = t\<rparr>
     \<and> (hv \<longrightarrow> (\<not> sublist ''Violated Article(s):'' t \<longrightarrow> article v = [])
              \<and> (\<not> sublist ''Explanation:'' t \<longrightarrow> explanation v = [])
              \<and> (\<not> sublist ''What the person can do next:'' t \<longrightarrow> guidance v = []))
     \<and> (\<not> hv \<longrightarrow> v = no_violation_record)"
proof -
  obtain hv where hv: "has_violation t = Inr hv"
    using has_violation_total by blast
  show ?thesis
  proof (cases hv)
    case False
    with hv parse_analysis_no [of t] show ?thesis by auto
  next
    case True
    with hv parse_analysis_yes [of t] obtain a e g
      where "articles_section t = Inr a" "explanation_section t = Inr e"
        "guidance_section t = Inr g"
        "parse_analysis t =
           Inr \<lparr>violations =
                  [\<lparr>status = ''Violation Detected'', article = a, explanation = e,
                    guidance = g, confidence = 95 / 100\<rparr>],
                summary = summary_of True, raw_analysis = t\<rparr>"
      by auto
    with hv True section_absent [of t] show ?thesis by auto
  qed
qed

lemma screen_scenario_response:
  assumes "screen_scenario env scenario s = (Inr resp, s')"
  shows "\<exists>prompt s1 reply. prompt_for env scenario 5 s = (Inr prompt, s1)
           \<and> ask_gemini env prompt s1 = (Inr reply, s')
           \<and> parse_analysis (the (normalize_analysis_text (Some reply))) = Inr resp"
  using assms unfolding screen_scenario_via_prompt
  by (auto split: prod.splits sum.splits)

text \<open>
  Claim C4. Every response of \<open>screen_scenario\<close> comes from a reply of the model: its
  \<open>raw_analysis\<close> is the normalized reply, it lists exactly one record, its
  \<open>total_violations\<close> is 1 when \<open>has_violation\<close> holds of that text and 0 otherwise, and its
  \<open>risk_level\<close> is \<open>High\<close> exactly when \<open>has_violation\<close> holds, \<open>Low\<close> otherwise. And every
  reply of the model gets such a response.
\<close>

theorem screen_scenario_summary:
  "(screen_scenario env scenario s = (Inr resp, s') \<longrightarrow>
      (\<exists>prompt s1 reply t hv.
         prompt_for env scenario 5 s = (Inr prompt, s1)
         \<and> ask_gemini env prompt s1 = (Inr reply, s')
         \<and> normalize_analysis_text (Some reply) = Some t
         \<and> raw_analysis resp = t
         \<and> has_violation t = Inr hv
         \<and> length (violations resp) = 1
         \<and> total_violations (summary resp) = (if hv then 1 else 0)
         \<and> (risk_level (summary resp) = ''High'' \<longleftrightarrow> hv)
         \<and> (risk_level (summary resp) = ''Low'' \<longleftrightarrow> \<not> hv)))
   \<and> (prompt_for env scenario 5 s = (Inr prompt, s1)
        \<and> ask_gemini env prompt s1 = (Inr reply, s2) \<longrightarrow>
      (\<exists>resp t hv.
         screen_scenario env scenario s = (Inr resp, s2)
         \<and> normalize_analysis_text (Some reply) = Some t
         \<and> raw_analysis resp = t
         \<and> has_violation t = Inr hv
         \<and> length (violations resp) = 1
         \<and> total_violations (summary resp) = (if hv then 1 else 0)
         \<and> (risk_level (summary resp) = ''High'' \<longleftrightarrow> hv)
         \<and> (risk_level (summary resp) = ''Low'' \<longleftrightarrow> \<not> hv)))"
proof (intro conjI impI)
  assume run: "screen_scenario env scenario s = (Inr resp, s')"
  from screen_scenario_response [OF run] obtain prompt s1 reply
    where p: "prompt_for env scenario 5 s = (Inr prompt, s1)"
      and a: "ask_gemini env prompt s1 = (Inr reply, s')"
      and r: "parse_analysis (the (normalize_analysis_text (Some reply))) = Inr resp"
    by blast
  obtain t where t: "normalize_analysis_text (Some reply) = Some t"
    using normalize_Some by blast
  with r have pa: "parse_analysis t = Inr resp" by simp
  from parse_analysis_facts [OF pa] obtain hv v
    where f: "raw_analysis resp = t" "has_violation t = Inr hv" "violations resp = [v]"
      "summary resp = summary_of hv"
    by blast
  then have "length (violations resp) = 1
         \<and> total_violations (summary resp) = (if hv then 1 else 0)
         \<and> (risk_level (summary resp) = ''High'' \<longleftrightarrow> hv)
         \<and> (risk_level (summary resp) = ''Low'' \<longleftrightarrow> \<not> hv)"
    by (cases hv) (simp_all add: summary_of_def)
  with p a t f(1,2) show "\<exists>prompt s1 reply t hv.
         prompt_for env scenario 5 s = (Inr prompt, s1)
         \<and> ask_gemini env prompt s1 = (Inr reply, s')
         \<and> normalize_analysis_text (Some reply) = Some t
         \<and> raw_analysis resp = t
         \<and> has_violation t = Inr hv
         \<and> length (violations resp) = 1
         \<and> total_violations (summary resp) = (if hv then 1 else 0)
         \<and> (risk_level (summary resp) = ''High'' \<longleftrightarrow> hv)
         \<and> (risk_level (summary resp) = ''Low'' \<longleftrightarrow> \<not> hv)"
    by blast
next
  assume pa: "prompt_for env scenario 5 s = (Inr prompt, s1)
        \<and> ask_gemini env prompt s1 = (Inr reply, s2)"
  obtain t where t: "normalize_analysis_text (Some reply) = Some t"
    using normalize_Some by blast
  from parse_analysis_shape [of t] obtain hv v where
    hv: "has_violation t = Inr hv"
    and parse: "parse_analysis t
        = Inr \<lparr>violations = [v], summary = summary_of hv, raw_analysis = t\<rparr>"
    by blast
  let ?resp = "\<lparr>violations = [v], summary = summary_of hv, raw_analysis = t\<rparr>"
  from pa t parse have run: "screen_scenario env scenario s = (Inr ?resp, s2)"
    by (simp add: screen_scenario_via_prompt)
  have "raw_analysis ?resp = t \<and> length (violations ?resp) = 1
         \<and> total_violations (summary ?resp) = (if hv then 1 else 0)
         \<and> (risk_level (summary ?resp) = ''High'' \<longleftrightarrow> hv)
         \<and> (risk_level (summary ?resp) = ''Low'' \<longleftrightarrow> \<not> hv)"
    by (cases hv) (simp_all add: summary_of_def)
  with run t hv show "\<exists>resp t hv.
         screen_scenario env scenario s = (Inr resp, s2)
         \<and> normalize_analysis_text (Some reply) = Some t
         \<and> raw_analysis resp = t
         \<and> has_violation t = Inr hv
         \<and> length (violations resp) = 1
         \<and> total_violations (summary resp) = (if hv then 1 else 0)
         \<and> (risk_level (summary resp) = ''High'' \<longleftrightarrow> hv)
         \<and> (risk_level (summary resp) = ''Low'' \<longleftrightarrow> \<not> hv)"
    by blast
qed

theorem screen_scenario_summary_witness:
  "(\<exists>prompt s1 s'.
      prompt_for (demo_env (Inr reply_yes))
        ''Police detained a journalist without a warrant for 48 hours'' 5 (empty_state 0)
        = (Inr prompt, s1)
      \<and> ask_gemini (demo_env (Inr reply_yes)) prompt s1 = (Inr reply_yes, s')
      \<and> screen_scenario (demo_env (Inr reply_yes))
          ''Police detained a journalist without a warrant for 48 hours'' (empty_state 0)
         = (Inr \<lparr>violations =
                   [\<lparr>status = ''Violation Detected'',
                     article = ''ARTICLE 13 - Freedom from arbitrary arrest'',
                     explanation = ''Detention without a warrant for 48 hours is arbitrary.'',
                     guidance = ''File a petition under Article 17.'',
                     confidence = 95 / 100\<rparr>],
                 summary =
                   \<lparr>total_violations = 1, risk_level = ''High'',
                    recommendations = [''Consult with a legal advisor for detailed guidance'']\<rparr>,
                 raw_analysis = reply_yes\<rparr>, s'))
   \<and> normalize_analysis_text (Some reply_yes) = Some reply_yes
   \<and> has_violation reply_yes = Inr True"
proof -
  let ?D = "demo_env (Inr reply_yes)"
  let ?sc = "''Police detained a journalist without a warrant for 48 hours''"
  let ?run = "screen_scenario ?D ?sc (empty_state 0)"
  let ?resp = "\<lparr>violations =
              [\<lparr>status = ''Violation Detected'',
                article = ''ARTICLE 13 - Freedom from arbitrary arrest'',
                explanation = ''Detention without a warrant for 48 hours is arbitrary.'',
                guidance = ''File a petition under Article 17.'',
                confidence = 95 / 100\<rparr>],
            summary =
              \<lparr>total_violations = 1, risk_level = ''High'',
               recommendations = [''Consult with a legal advisor for detailed guidance'']\<rparr>,
            raw_analysis = reply_yes\<rparr>"
  have e: "fst ?run = Inr ?resp" by code_simp
  then have run: "?run = (Inr ?resp, snd ?run)" by (metis prod.collapse)
  from screen_scenario_summary run
  obtain prompt s1 reply t hv where
    p: "prompt_for ?D ?sc 5 (empty_state 0) = (Inr prompt, s1)"
    and a: "ask_gemini ?D prompt s1 = (Inr reply, snd ?run)"
    and n: "normalize_analysis_text (Some reply) = Some t"
    and raw: "raw_analysis ?resp = t"
    and hv: "has_violation t = Inr hv"
    and risk: "risk_level (summary ?resp) = ''High'' \<longleftrightarrow> hv"
    by blast
  from a have "reply = reply_yes"
    by (auto simp: ask_gemini_def demo_env_def split: option.splits)
  with a n raw hv risk have "ask_gemini ?D prompt s1 = (Inr reply_yes, snd ?run)"
    "normalize_analysis_text (Some reply_yes) = Some reply_yes"
    "has_violation reply_yes = Inr True"
    by simp_all
  with p run show ?thesis by blast
qed

text \<open>
  Claim C8, as the code has it. On either endpoint, when the model call raises, the
  request ends with the error response 500 carrying the message of the exception, in the
  state the one call left: no second call is made and no response is built. When the call
  returns a reply, no error is raised: \<open>analyze\<close> returns the reply, and
  \<open>screen_scenario\<close> returns one record. If a violation is detected, each of \<open>article\<close>,
  \<open>explanation\<close> and \<open>guidance\<close> whose header is absent from the text is the empty string;
  if none is detected, the record is the fixed one. The model call is one
  \<open>generate_content\<close> on the bound model.
\<close>

theorem reasoner_failure_and_malformed_reply:
  "(prompt_for env scenario 3 s = (Inr prompt, s1) \<longrightarrow>
      (ask_gemini env prompt s1 = (Inl msg, s2) \<longrightarrow>
         analyze env scenario s = (Inl (HTTPException 500 msg), s2))
      \<and> (ask_gemini env prompt s1 = (Inr reply, s2) \<longrightarrow>
         analyze env scenario s = (Inr reply, s2)))
   \<and> (prompt_for env scenario 5 s = (Inr prompt, s1) \<longrightarrow>
      (ask_gemini env prompt s1 = (Inl msg, s2) \<longrightarrow>
         screen_scenario env scenario s = (Inl (HTTPException 500 msg), s2))
      \<and> (ask_gemini env prompt s1 = (Inr reply, s2) \<longrightarrow>
         (\<exists>t hv v. normalize_analysis_text (Some reply) = Some t
            \<and> has_violation t = Inr hv
            \<and> screen_scenario env scenario s =
                (Inr \<lparr>violations = [v], summary = summary_of hv, raw_analysis = t\<rparr>, s2)
            \<and> (hv \<longrightarrow> (\<not> sublist ''Violated Article(s):'' t \<longrightarrow> article v = [])
                     \<and> (\<not> sublist ''Explanation:'' t \<longrightarrow> explanation v = [])
                     \<and> (\<not> sublist ''What the person can do next:'' t \<longrightarrow> guidance v = []))
            \<and> (\<not> hv \<longrightarrow> v = no_violation_record))))
   \<and> (gemini s1 = Some m \<longrightarrow>
        ask_gemini env prompt s1 =
          (fst (generate_content env m prompt (world s1)),
           s1\<lparr>world := snd (generate_content env m prompt (world s1))\<rparr>))"
proof (intro conjI impI)
  assume "prompt_for env scenario 3 s = (Inr prompt, s1)"
    and "ask_gemini env prompt s1 = (Inl msg, s2)"
  then show "analyze env scenario s = (Inl (HTTPException 500 msg), s2)"
    by (simp add: analyze_via_prompt)
next
  assume "prompt_for env scenario 3 s = (Inr prompt, s1)"
    and "ask_gemini env prompt s1 = (Inr reply, s2)"
  then show "analyze env scenario s = (Inr reply, s2)"
    by (simp add: analyze_via_prompt)
next
  assume "prompt_for env scenario 5 s = (Inr prompt, s1)"
    and "ask_gemini env prompt s1 = (Inl msg, s2)"
  then show "screen_scenario env scenario s = (Inl (HTTPException 500 msg), s2)"
    by (simp add: screen_scenario_via_prompt)
next
  assume p: "prompt_for env scenario 5 s = (Inr prompt, s1)"
    and a: "ask_gemini env prompt s1 = (Inr reply, s2)"
  obtain t where t: "normalize_analysis_text (Some reply) = Some t"
    using normalize_Some by blast
  from parse_analysis_shape [of t] obtain hv v where
    "has_violation t = Inr hv"
    "parse_analysis t = Inr \<lparr>violations = [v], summary = summary_of hv, raw_analysis = t\<rparr>"
    "hv \<longrightarrow> (\<not> sublist ''Violated Article(s):'' t \<longrightarrow> article v = [])
              \<and> (\<not> sublist ''Explanation:'' t \<longrightarrow> explanation v = [])
              \<and> (\<not> sublist ''What the person can do next:'' t \<longrightarrow> guidance v = [])"
    "\<not> hv \<longrightarrow> v = no_violation_record"
    by blast
  moreover from p a t this(2) have "screen_scenario env scenario s =
      (Inr \<lparr>violations = [v], summary = summary_of hv, raw_analysis = t\<rparr>, s2)"
    by (simp add: screen_scenario_via_prompt)
  ultimately show "\<exists>t hv v. normalize_analysis_text (Some reply) = Some t
            \<and> has_violation t = Inr hv
            \<and> screen_scenario env scenario s =
                (Inr \<lparr>violations = [v], summary = summary_of hv, raw_analysis = t\<rparr>, s2)
            \<and> (hv \<longrightarrow> (\<not> sublist ''Violated Article(s):'' t \<longrightarrow> article v = [])
                     \<and> (\<not> sublist ''Explanation:'' t \<longrightarrow> explanation v = [])
                     \<and> (\<not> sublist ''What the person can do next:'' t \<longrightarrow> guidance v = []))
            \<and> (\<not> hv \<longrightarrow> v = no_violation_record)"
    using t by blast
next
  assume "gemini s1 = Some m"
  then show "ask_gemini env prompt s1 =
          (fst (generate_content env m prompt (world s1)),
           s1\<lparr>world := snd (generate_content env m prompt (world s1))\<rparr>)"
    by (simp add: ask_gemini_def split: prod.splits)
qed


theorem reasoner_failure_and_malformed_reply_witness:
  "(\<exists>prompt s1 s2.
      prompt_for (demo_env (Inl ''quota exceeded'')) ''A scenario'' 3 (empty_state 0)
        = (Inr prompt, s1)
      \<and> ask_gemini (demo_env (Inl ''quota exceeded'')) prompt s1 = (Inl ''quota exceeded'', s2)
      \<and> world s2 = Suc 0
      \<and> analyze (demo_env (Inl ''quota exceeded'')) ''A scenario'' (empty_state 0)
          = (Inl (HTTPException 500 ''quota exceeded''), s2))
   \<and> (\<exists>prompt s1 s2.
      prompt_for (demo_env (Inl ''quota exceeded'')) ''A scenario'' 5 (empty_state 0)
        = (Inr prompt, s1)
      \<and> ask_gemini (demo_env (Inl ''quota exceeded'')) prompt s1 = (Inl ''quota exceeded'', s2)
      \<and> world s2 = Suc 0
      \<and> screen_scenario (demo_env (Inl ''quota exceeded'')) ''A scenario'' (empty_state 0)
          = (Inl (HTTPException 500 ''quota exceeded''), s2))
   \<and> (\<exists>prompt s1 s2 v.
      prompt_for (demo_env (Inr ''Violation Status: Yes'')) ''A scenario'' 5 (empty_state 0)
        = (Inr prompt, s1)
      \<and> ask_gemini (demo_env (Inr ''Violation Status: Yes'')) prompt s1
          = (Inr ''Violation Status: Yes'', s2)
      \<and> screen_scenario (demo_env (Inr ''Violation Status: Yes'')) ''A scenario'' (empty_state 0)
          = (Inr \<lparr>violations = [v], summary = summary_of True,
                  raw_analysis = ''Violation Status: Yes''\<rparr>, s2)
      \<and> article v = [] \<and> explanation v = [] \<and> guidance v = [])"
proof (intro conjI)
  let ?D = "demo_env (Inl ''quota exceeded'') :: (unit, unit, unit, nat) env"
  let ?S = "empty_state 0 :: (unit, unit, nat) state"
  let ?p = "prompt_for ?D ''A scenario'' 3 ?S"
  have "map_sum id (\<lambda>_. ()) (fst ?p) = Inr ()" by code_simp
  then obtain prompt where "fst ?p = Inr prompt" by (cases "fst ?p") auto
  then have p: "?p = (Inr prompt, snd ?p)" by (metis prod.collapse)
  have g: "gemini (snd ?p) = Some ''models/gemini-2.5-flash''" by code_simp
  have w: "world (snd ?p) = 0" by code_simp
  let ?s2 = "(snd ?p)\<lparr>world := Suc 0\<rparr>"
  from g w have a: "ask_gemini ?D prompt (snd ?p) = (Inl ''quota exceeded'', ?s2)"
    by (simp add: ask_gemini_def demo_env_def)
  from reasoner_failure_and_malformed_reply p a
  have "analyze ?D ''A scenario'' ?S = (Inl (HTTPException 500 ''quota exceeded''), ?s2)"
    by blast
  with p a show "\<exists>prompt s1 s2. ?p = (Inr prompt, s1)
      \<and> ask_gemini ?D prompt s1 = (Inl ''quota exceeded'', s2)
      \<and> world s2 = Suc 0
      \<and> analyze ?D ''A scenario'' ?S = (Inl (HTTPException 500 ''quota exceeded''), s2)"
    by (intro exI [of _ prompt] exI [of _ "snd ?p"] exI [of _ ?s2]) simp
next
  let ?D = "demo_env (Inl ''quota exceeded'') :: (unit, unit, unit, nat) env"
  let ?S = "empty_state 0 :: (unit, unit, nat) state"
  let ?p = "prompt_for ?D ''A scenario'' 5 ?S"
  have "map_sum id (\<lambda>_. ()) (fst ?p) = Inr ()" by code_simp
  then obtain prompt where "fst ?p = Inr prompt" by (cases "fst ?p") auto
  then have p: "?p = (Inr prompt, snd ?p)" by (metis prod.collapse)
  have g: "gemini (snd ?p) = Some ''models/gemini-2.5-flash''" by code_simp
  have w: "world (snd ?p) = 0" by code_simp
  let ?s2 = "(snd ?p)\<lparr>world := Suc 0\<rparr>"
  from g w have a: "ask_gemini ?D prompt (snd ?p) = (Inl ''quota exceeded'', ?s2)"
    by (simp add: ask_gemini_def demo_env_def)
  from reasoner_failure_and_malformed_reply p a
  have "screen_scenario ?D ''A scenario'' ?S = (Inl (HTTPException 500 ''quota exceeded''), ?s2)"
    by blast
  with p a show "\<exists>prompt s1 s2. ?p = (Inr prompt, s1)
      \<and> ask_gemini ?D prompt s1 = (Inl ''quota exceeded'', s2)
      \<and> world s2 = Suc 0
      \<and> screen_scenario ?D ''A scenario'' ?S
          = (Inl (HTTPException 500 ''quota exceeded''), s2)"
    by (intro exI [of _ prompt] exI [of _ "snd ?p"] exI [of _ ?s2]) simp
next
  let ?D = "demo_env (Inr ''Violation Status: Yes'') :: (unit, unit, unit, nat) env"
  let ?S = "empty_state 0 :: (unit, unit, nat) state"
  let ?p = "prompt_for ?D ''A scenario'' 5 ?S"
  have "map_sum id (\<lambda>_. ()) (fst ?p) = Inr ()" by code_simp
  then obtain prompt where "fst ?p = Inr prompt" by (cases "fst ?p") auto
  then have p: "?p = (Inr prompt, snd ?p)" by (metis prod.collapse)
  have g: "gemini (snd ?p) = Some ''models/gemini-2.5-flash''" by code_simp
  have w: "world (snd ?p) = 0" by code_simp
  let ?s2 = "(snd ?p)\<lparr>world := Suc 0\<rparr>"
  from g w have a: "ask_gemini ?D prompt (snd ?p) = (Inr ''Violation Status: Yes'', ?s2)"
    by (simp add: ask_gemini_def demo_env_def)
  have n: "normalize_analysis_text (Some ''Violation Status: Yes'') = Some ''Violation Status: Yes''"
    by code_simp
  have hv: "has_violation ''Violation Status: Yes'' = Inr True" by code_simp
  have absent: "\<not> str_in ''Violated Article(s):'' ''Violation Status: Yes''"
    "\<not> str_in ''Explanation:'' ''Violation Status: Yes''"
    "\<not> str_in ''What the person can do next:'' ''Violation Status: Yes''"
    by code_simp+
  from reasoner_failure_and_malformed_reply p a
  obtain t hv' v where "normalize_analysis_text (Some ''Violation Status: Yes'') = Some t"
    and "has_violation t = Inr hv'"
    and "screen_scenario ?D ''A scenario'' ?S =
            (Inr \<lparr>violations = [v], summary = summary_of hv', raw_analysis = t\<rparr>, ?s2)"
    and "hv' \<longrightarrow> (\<not> sublist ''Violated Article(s):'' t \<longrightarrow> article v = [])
                     \<and> (\<not> sublist ''Explanation:'' t \<longrightarrow> explanation v = [])
                     \<and> (\<not> sublist ''What the person can do next:'' t \<longrightarrow> guidance v = [])"
    by blast
  with n hv absent have "screen_scenario ?D ''A scenario'' ?S =
            (Inr \<lparr>violations = [v], summary = summary_of True,
                   raw_analysis = ''Violation Status: Yes''\<rparr>, ?s2)
      \<and> article v = [] \<and> explanation v = [] \<and> guidance v = []"
    by (simp add: str_in_sublist)
  with p a show "\<exists>prompt s1 s2 v. ?p = (Inr prompt, s1)
      \<and> ask_gemini ?D prompt s1 = (Inr ''Violation Status: Yes'', s2)
      \<and> screen_scenario ?D ''A scenario'' ?S
          = (Inr \<lparr>violations = [v], summary = summary_of True,
                  raw_analysis = ''Violation Status: Yes''\<rparr>, s2)
      \<and> article v = [] \<and> explanation v = [] \<and> guidance v = []"
    by (intro exI [of _ prompt] exI [of _ "snd ?p"] exI [of _ ?s2] exI [of _ v]) simp
qed

text \<open>
  Claim C8 as stated fails: the reply \<open>Violation Status: No\<close> lacks the three section
  headers, and the record of the response has no empty field.
\<close>

theorem malformed_reply_without_empty_fields:
  "\<not> sublist ''Violated Article(s):'' ''Violation Status: No''
   \<and> \<not> sublist ''Explanation:'' ''Violation Status: No''
   \<and> \<not> sublist ''What the person can do next:'' ''Violation Status: No''
   \<and> fst (screen_scenario (demo_env (Inr ''Violation Status: No''))
           ''A citizen paid their electricity bill on time'' (empty_state 0))
      = Inr \<lparr>violations =
               [\<lparr>status = ''No Violation'', article = ''N/A'',
                 explanation = ''No fundamental rights violation detected in this scenario.'',
                 guidance = ''No immediate action required.'', confidence = 95 / 100\<rparr>],
             summary =
               \<lparr>total_violations = 0, risk_level = ''Low'',
                recommendations = [''Continue monitoring the situation'']\<rparr>,
             raw_analysis = ''Violation Status: No''\<rparr>"
proof -
  have "\<not> str_in ''Violated Article(s):'' ''Violation Status: No''"
    "\<not> str_in ''Explanation:'' ''Violation Status: No''"
    "\<not> str_in ''What the person can do next:'' ''Violation Status: No''"
    by code_simp+
  moreover have "fst (screen_scenario (demo_env (Inr ''Violation Status: No''))
           ''A citizen paid their electricity bill on time'' (empty_state 0))
      = Inr \<lparr>violations =
               [\<lparr>status = ''No Violation'', article = ''N/A'',
                 explanation = ''No fundamental rights violation detected in this scenario.'',
                 guidance = ''No immediate action required.'', confidence = 95 / 100\<rparr>],
             summary =
               \<lparr>total_violations = 0, risk_level = ''Low'',
                recommendations = [''Continue monitoring the situation'']\<rparr>,
             raw_analysis = ''Violation Status: No''\<rparr>"
    by code_simp
  ultimately show ?thesis unfolding str_in_sublist by blast
qed

section \<open>Model selection at initialization\<close>

lemma try_preferred_first:
  "ps = pre @ p # post \<Longrightarrow> all_fail env pre s = Some s1 \<Longrightarrow>
   call (GenerativeModel env p) s1 = (Inr (), s2) \<Longrightarrow>
   try_preferred env ps s = (Inr (Some p), s2)"
proof (induction pre arbitrary: ps s)
  case Nil
  then show ?case by simp
next
  case (Cons q pre)
  then show ?case by (auto split: prod.splits sum.splits)
qed

lemma try_preferred_none:
  "all_fail env ps s = Some s1 \<Longrightarrow> try_preferred env ps s = (Inr None, s1)"
  by (induction ps arbitrary: s) (auto split: prod.splits sum.splits)

lemma supports_generate_loop_iff:
  "supports_generate_loop xs \<longleftrightarrow>
     (\<exists>l\<in>set xs. \<exists>w\<in>set [''generate'', ''content'', ''text'', ''chat'']. sublist w (str_lower l))"
  by (induction xs) (auto simp: str_in_sublist)

lemma supports_generate_labels:
  "supports_generate m \<longleftrightarrow> supports_generate_loop (labels m)"
  by (simp add: supports_generate_def labels_def split: option.splits cap_value.splits)

lemma available_loop_kept:
  "map fst (available_loop ms) = map (\<lambda>m. the (name m)) (filter kept_model ms)"
  by (induction ms)
     (auto simp: kept_model_def supports_generate_labels supports_generate_loop_iff
           split: option.splits)

lemma first_preferred_in_find: "first_preferred_in ps names = find (\<lambda>p. p \<in> set names) ps"
  by (induction ps) auto

lemma choose_available_kept:
  "choose_available (available_loop ms) =
     (if filter kept_model ms = [] then None else Some (fallback_choice ms))"
proof (cases "available_loop ms")
  case Nil
  with available_loop_kept [of ms] show ?thesis
    by (simp add: choose_available_def)
next
  case (Cons nm rest)
  obtain n m where nm: "nm = (n, m)" by (cases nm)
  from Cons available_loop_kept [of ms] nm
  have k: "map (\<lambda>m. the (name m)) (filter kept_model ms) = n # map fst rest"
    by simp
  then have ne: "filter kept_model ms \<noteq> []" by auto
  with k have hd: "the (name (hd (filter kept_model ms))) = n"
    by (cases "filter kept_model ms") auto
  from Cons nm have "choose_available (available_loop ms) =
      (case first_preferred_in preferred (map fst (available_loop ms)) of
         Some p \<Rightarrow> Some p | None \<Rightarrow> Some n)"
    by (simp add: choose_available_def)
  with ne hd show ?thesis
    by (simp add: fallback_choice_def first_preferred_in_find available_loop_kept
          split: option.splits)
qed


lemma init_gemini_selected:
  "try_preferred env preferred s = (Inr (Some p), s2) \<Longrightarrow>
     init_gemini env s = bind_selected env p s2"
  by (simp add: init_gemini_def next_do_def ok_def bind_selected_def assign_def
        split: prod.splits sum.splits)

lemma init_gemini_fallback:
  "try_preferred env preferred s = (Inr None, s1) \<Longrightarrow>
     list_models_fallback env s1 = (Inr choice, s2) \<Longrightarrow>
     init_gemini env s =
       (case choice of None \<Rightarrow> (Inl no_suitable_model, s2) | Some n \<Rightarrow> bind_selected env n s2)"
  by (simp add: init_gemini_def next_do_def raise_def bind_selected_def assign_def
        split: prod.splits sum.splits option.splits)

lemma kept_model_code:
  "kept_model m \<longleftrightarrow> (case name m of Some n \<Rightarrow> n \<noteq> [] | None \<Rightarrow> False) \<and> supports_generate m"
  by (auto simp: kept_model_def supports_generate_labels supports_generate_loop_iff
        split: option.splits)

text \<open>
  Claim C9, as the code has it. The first preferred model that constructs without error is
  selected. If none does, ListModels is asked: when it answers with a list, the kept
  models decide, a preferred name among them first, else the first kept model; when no
  model is kept, or ListModels raises or answers with no list, initialization raises the
  error of line 123. A selected name is constructed once more and bound if that succeeds;
  if the construction raises, initialization fails with that exception.
\<close>

theorem init_gemini_selection:
  "(preferred = pre @ p # post \<and> all_fail env pre s = Some s1
      \<and> call (GenerativeModel env p) s1 = (Inr (), s2)
      \<longrightarrow> init_gemini env s = bind_selected env p s2)
   \<and> (all_fail env preferred s = Some s1 \<and> call (list_models env) s1 = (Inr info, s2)
        \<and> models_list info = AsList ms
      \<longrightarrow> (filter kept_model ms = [] \<longrightarrow> init_gemini env s = (Inl no_suitable_model, s2))
        \<and> (filter kept_model ms \<noteq> [] \<longrightarrow>
             init_gemini env s = bind_selected env (fallback_choice ms) s2))
   \<and> (all_fail env preferred s = Some s1
        \<and> (call (list_models env) s1 = (Inl e, s2)
           \<or> call (list_models env) s1 = (Inr info, s2) \<and> models_list info = NotAList)
      \<longrightarrow> init_gemini env s = (Inl no_suitable_model, s2))"
proof (intro conjI impI)
  assume "preferred = pre @ p # post \<and> all_fail env pre s = Some s1
      \<and> call (GenerativeModel env p) s1 = (Inr (), s2)"
  then have "try_preferred env preferred s = (Inr (Some p), s2)"
    using try_preferred_first by blast
  then show "init_gemini env s = bind_selected env p s2"
    by (rule init_gemini_selected)
next
  assume a: "all_fail env preferred s = Some s1 \<and> call (list_models env) s1 = (Inr info, s2)
        \<and> models_list info = AsList ms"
  then have t: "try_preferred env preferred s = (Inr None, s1)"
    using try_preferred_none by blast
  from a have f: "list_models_fallback env s1 = (Inr (choose_available (available_loop ms)), s2)"
    by (simp add: list_models_fallback_def available_def)
  {
    assume "filter kept_model ms = []"
    with init_gemini_fallback [OF t f]
    show "init_gemini env s = (Inl no_suitable_model, s2)"
      by (simp add: choose_available_kept)
  }
  {
    assume "filter kept_model ms \<noteq> []"
    with init_gemini_fallback [OF t f]
    show "init_gemini env s = bind_selected env (fallback_choice ms) s2"
      by (simp add: choose_available_kept)
  }
next
  assume a: "all_fail env preferred s = Some s1
        \<and> (call (list_models env) s1 = (Inl e, s2)
           \<or> call (list_models env) s1 = (Inr info, s2) \<and> models_list info = NotAList)"
  then have t: "try_preferred env preferred s = (Inr None, s1)"
    using try_preferred_none by blast
  from a have f: "list_models_fallback env s1 = (Inr None, s2)"
    by (auto simp: list_models_fallback_def available_def choose_available_def)
  from init_gemini_fallback [OF t f]
  show "init_gemini env s = (Inl no_suitable_model, s2)" by simp
qed

theorem init_gemini_selection_witness:
  "init_gemini (demo_env (Inr [])) (empty_state 0)
     = bind_selected (demo_env (Inr [])) ''models/gemini-2.5-flash'' (empty_state 0)
   \<and> filter kept_model [listed_counter, listed_flash] = [listed_flash]
   \<and> init_gemini (fallback_env (Inr (Plain (AsList [listed_counter, listed_flash]))))
         (empty_state 0)
       = (Inr (), (empty_state 5)\<lparr>gemini := Some ''models/gemini-2.0-flash''\<rparr>)
   \<and> init_gemini (fallback_env (Inr (DictWithModels (AsList [listed_counter]))))
         (empty_state 0)
       = (Inl no_suitable_model, empty_state 4)
   \<and> init_gemini (fallback_env (Inl ''503 unavailable'')) (empty_state 0)
       = (Inl no_suitable_model, empty_state 4)"
proof (intro conjI)
  let ?S = "empty_state 0 :: (unit, unit, nat) state"
  have "preferred = [] @ ''models/gemini-2.5-flash''
          # [''models/gemini-1.5-flash'', ''models/gemini-1.5-pro'', ''models/gemini-pro'']"
    by (simp add: preferred_def)
  moreover have "all_fail (demo_env (Inr [])) [] ?S = Some ?S" by simp
  moreover have "call (GenerativeModel (demo_env (Inr [])) ''models/gemini-2.5-flash'') ?S
      = (Inr (), ?S)"
    by (simp add: call_def demo_env_def empty_state_def)
  ultimately show "init_gemini (demo_env (Inr [])) ?S
     = bind_selected (demo_env (Inr [])) ''models/gemini-2.5-flash'' ?S"
    using init_gemini_selection by blast
next
  have "supports_generate listed_flash" "\<not> supports_generate listed_counter"
    by code_simp+
  then show k: "filter kept_model [listed_counter, listed_flash] = [listed_flash]"
    by (simp add: kept_model_code) (simp add: listed_flash_def)
next
  let ?S = "empty_state 0 :: (unit, unit, nat) state"
  let ?ms = "[listed_counter, listed_flash]"
  let ?E = "fallback_env (Inr (Plain (AsList ?ms)))"
  have sg: "supports_generate listed_flash" "\<not> supports_generate listed_counter"
    by code_simp+
  then have k: "filter kept_model ?ms = [listed_flash]"
    by (simp add: kept_model_code) (simp add: listed_flash_def)
  have a: "all_fail ?E preferred ?S = Some (empty_state 4)"
    by (simp add: preferred_def call_def fallback_env_def empty_state_def)
  have l: "call (list_models ?E) (empty_state 4) = (Inr (Plain (AsList ?ms)), empty_state 4)"
    by (simp add: call_def fallback_env_def empty_state_def)
  have m: "models_list (Plain (AsList ?ms)) = AsList ?ms"
    by (simp add: models_list_def)
  from k have ne: "filter kept_model ?ms \<noteq> []" by simp
  from init_gemini_selection a l m ne
  have "init_gemini ?E ?S = bind_selected ?E (fallback_choice ?ms) (empty_state 4)"
    by blast
  moreover have "fallback_choice ?ms = ''models/gemini-2.0-flash''"
    unfolding fallback_choice_def k by (simp add: preferred_def listed_flash_def)
  moreover have "bind_selected ?E ''models/gemini-2.0-flash'' (empty_state 4)
      = (Inr (), (empty_state 5)\<lparr>gemini := Some ''models/gemini-2.0-flash''\<rparr>)"
    by (simp add: bind_selected_def call_def fallback_env_def empty_state_def preferred_def)
  ultimately show "init_gemini ?E ?S
      = (Inr (), (empty_state 5)\<lparr>gemini := Some ''models/gemini-2.0-flash''\<rparr>)"
    by simp
next
  let ?S = "empty_state 0 :: (unit, unit, nat) state"
  let ?ms = "[listed_counter]"
  let ?E = "fallback_env (Inr (DictWithModels (AsList ?ms)))"
  have "\<not> supports_generate listed_counter" by code_simp
  then have k: "filter kept_model ?ms = []" by (simp add: kept_model_code)
  have a: "all_fail ?E preferred ?S = Some (empty_state 4)"
    by (simp add: preferred_def call_def fallback_env_def empty_state_def)
  have l: "call (list_models ?E) (empty_state 4)
      = (Inr (DictWithModels (AsList ?ms)), empty_state 4)"
    by (simp add: call_def fallback_env_def empty_state_def)
  have m: "models_list (DictWithModels (AsList ?ms)) = AsList ?ms"
    by (simp add: models_list_def)
  from init_gemini_selection a l m k
  show "init_gemini ?E ?S = (Inl no_suitable_model, empty_state 4)"
    by blast
next
  let ?S = "empty_state 0 :: (unit, unit, nat) state"
  let ?E = "fallback_env (Inl ''503 unavailable'')"
  have a: "all_fail ?E preferred ?S = Some (empty_state 4)"
    by (simp add: preferred_def call_def fallback_env_def empty_state_def)
  have l: "call (list_models ?E) (empty_state 4)
      = (Inl (Exception ''503 unavailable''), empty_state 4)"
    by (simp add: call_def fallback_env_def empty_state_def)
  from init_gemini_selection a l
  show "init_gemini ?E ?S = (Inl no_suitable_model, empty_state 4)"
    by blast
qed

text \<open>
  Claim C9 as stated fails in its last part: with a provider that constructs no preferred
  model and lists \<open>models/gemini-pro\<close> with \<open>generateContent\<close>, the fallback yields that
  model, and initialization still raises, leaving \<open>gemini\<close> unbound.
\<close>

theorem init_fails_although_fallback_finds_model:
  "fst (try_preferred (fallback_env (Inr (Plain (AsList [listed_pro])))) preferred (empty_state 0))
     = Inr None
   \<and> choose_available (available (AsList [listed_pro])) = Some ''models/gemini-pro''
   \<and> fst (init_gemini (fallback_env (Inr (Plain (AsList [listed_pro])))) (empty_state 0))
       = Inl (Exception ''404 model not found'')
   \<and> gemini (snd (init_gemini (fallback_env (Inr (Plain (AsList [listed_pro])))) (empty_state 0)))
       = None"
  by code_simp

section \<open>Retrieval\<close>

text \<open>
  Both endpoints retrieve before they build the prompt, \<open>analyze\<close> with \<open>k = 3\<close> and
  \<open>screen_scenario\<close> with \<open>k = 5\<close> (lemmas \<open>analyze_via_prompt\<close> and
  \<open>screen_scenario_via_prompt\<close>). With the index of the documentation and a corpus of at
  least \<open>k\<close> articles, the search returns exactly the \<open>k\<close> nearest articles, nearest first.
  With a smaller corpus it still returns \<open>k\<close> records: the label \<open>-1\<close> is read by
  \<open>articles[-1]\<close>, the last article.
\<close>

lemma prompt_for_retrieve:
  "prompt_for env scenario k =
     next_do (retrieve env scenario k) (\<lambda>matched_articles.
     lift (build_prompt scenario matched_articles))"
  by (rule ext)
     (simp add: prompt_for_def retrieve_def next_do_def split: prod.splits sum.splits)

lemma nearest_order_sorted:
  "sorted (map (\<lambda>i. sq_dist (vectors ! i) q) (nearest_order vectors q))
   \<and> distinct (nearest_order vectors q)
   \<and> set (nearest_order vectors q) = {0..<length vectors}"
  by (simp add: nearest_order_def)

lemma nearest_order_length: "length (nearest_order vectors q) = length vectors"
  by (simp add: nearest_order_def)

lemma nearest_order_range: "i \<in> set (nearest_order vectors q) \<Longrightarrow> i < length vectors"
  by (simp add: nearest_order_def)

lemma getitems_in_range:
  "\<forall>i\<in>set is. i < length arts \<Longrightarrow>
     getitems (Some arts) (map int is) = Inr (map (\<lambda>i. arts ! i) is)"
  by (induction "is") (simp_all add: getitem_def and_then_def)

lemma getitems_padding:
  "arts \<noteq> [] \<Longrightarrow> getitems (Some arts) (replicate n (- 1)) = Inr (replicate n (last arts))"
proof (induction n)
  case 0
  then show ?case by simp
next
  case (Suc n)
  from Suc.prems have "getitem arts (- 1) = Inr (last arts)"
    by (cases arts rule: rev_cases) (simp_all add: getitem_def nat_add_distrib)
  with Suc show ?case by (simp add: and_then_def)
qed

lemma getitems_append:
  "getitems (Some arts) xs = Inr a \<Longrightarrow> getitems (Some arts) ys = Inr b \<Longrightarrow>
     getitems (Some arts) (xs @ ys) = Inr (a @ b)"
  by (induction xs arbitrary: a) (auto simp: and_then_def split: sum.splits)

lemma getitems_flat_l2_search:
  assumes "length vectors = length arts" and "arts \<noteq> []"
  shows "getitems (Some arts) (flat_l2_search vectors q k) =
           Inr (map (\<lambda>i. arts ! i) (take k (nearest_order vectors q))
                @ replicate (k - length arts) (last arts))"
proof -
  have "\<forall>i\<in>set (take k (nearest_order vectors q)). i < length arts"
  proof
    fix i
    assume "i \<in> set (take k (nearest_order vectors q))"
    then have "i \<in> set (nearest_order vectors q)" by (rule in_set_takeD)
    then have "i < length vectors" by (rule nearest_order_range)
    with assms(1) show "i < length arts" by simp
  qed
  then have "getitems (Some arts) (map int (take k (nearest_order vectors q)))
      = Inr (map (\<lambda>i. arts ! i) (take k (nearest_order vectors q)))"
    by (rule getitems_in_range)
  moreover from assms(2) have "getitems (Some arts) (replicate (k - length arts) (- 1))
      = Inr (replicate (k - length arts) (last arts))"
    by (rule getitems_padding)
  ultimately show ?thesis
    unfolding flat_l2_search_def assms(1) by (rule getitems_append)
qed

lemma search_relevant_articles_flat:
  assumes "embed_model s = Some em"
    and "encode env em user_input (world s) = (Inr v, w1)"
    and "index s = Some ix"
    and "index_search env ix v k w1 = (Inr (flat_l2_search vectors v k), w2)"
    and "articles s = Some arts"
    and "length vectors = length arts" and "arts \<noteq> []"
  shows "search_relevant_articles env user_input k s =
           (Inr (map (\<lambda>i. arts ! i) (take k (nearest_order vectors v))
                 @ replicate (k - length arts) (last arts)), s\<lparr>world := w2\<rparr>)"
  using assms getitems_flat_l2_search [of vectors arts v k]
  by (simp add: search_relevant_articles_def next_do_def call_def)

lemma search_relevant_articles_nearest:
  assumes "embed_model s = Some em"
    and "encode env em user_input (world s) = (Inr v, w1)"
    and "index s = Some ix"
    and "index_search env ix v k w1 = (Inr (flat_l2_search vectors v k), w2)"
    and "articles s = Some arts"
    and "length vectors = length arts" and "k \<le> length arts" and "0 < k"
  shows "\<exists>found. search_relevant_articles env user_input k s = (Inr found, s\<lparr>world := w2\<rparr>)
           \<and> found = map (\<lambda>i. arts ! i) (take k (nearest_order vectors v))
           \<and> length found = k"
proof -
  from assms(7,8) have "arts \<noteq> []" by auto
  from search_relevant_articles_flat [OF assms(1-6) this] assms(6,7)
  show ?thesis by (simp add: nearest_order_length)
qed

text \<open>
  Claim C2. Retrieval is to return the \<open>k\<close> nearest articles, nearest first, and fewer than
  \<open>k\<close> only when the corpus is smaller. On the corpus of two articles the search for five
  returns five records, and the search for three returns three: the nearest article, the
  other one, and the last article of the corpus again for every missing neighbour.
\<close>

theorem retrieval_repeats_last_article:
  "length demo_articles = 2
   \<and> map_sum id (map (\<lambda>a. a ''article_id''))
       (fst (retrieve flat_env
          ''Police arrested a journalist at home at night without telling him the reason for the arrest''
          5 (empty_state 0)))
     = Inr [Some ''13'', Some ''11'', Some ''13'', Some ''13'', Some ''13'']
   \<and> map_sum id (map (\<lambda>a. a ''article_id''))
       (fst (retrieve flat_env
          ''Police arrested a journalist at home at night without telling him the reason for the arrest''
          3 (empty_state 0)))
     = Inr [Some ''13'', Some ''11'', Some ''13'']"
  by code_simp

end
